theory Spec2Isabelle
  imports Main "HOL-Library.AList" "HOL-Library.Sublist" "HOL-Library.Multiset"
begin

section \<open>Strings and the library calls the query builder relies on\<close>

text \<open>
  The filter query builder of ml-metadata (\<^verbatim>\<open>ml_metadata/query/filter_query_builder.cc\<close>)
  turns the column references of a resolved filter predicate into table aliases and
  renders the matching FROM clause. A \<^verbatim>\<open>std::string\<close> is a \<^typ>\<open>string\<close>, a list of bytes.
\<close>

text \<open>A C++ raw string literal, given line by line; the lines are separated by a newline byte.\<close>

fun raw_lines :: "string list \<Rightarrow> string" where
  "raw_lines [] = []"
| "raw_lines [l] = l"
| "raw_lines (l # m # ls) = l @ CHR 0x0A # raw_lines (m # ls)"

text \<open>\<^verbatim>\<open>absl::StartsWith(text, prefix)\<close>.\<close>

definition StartsWith :: "string \<Rightarrow> string \<Rightarrow> bool" where
  "StartsWith text pfx = prefix pfx text"

text \<open>
  The decimal text that \<^verbatim>\<open>absl::StrCat\<close> and \<^verbatim>\<open>absl::Substitute\<close> produce for an integer
  argument, and the text that \<^verbatim>\<open>absl::Substitute\<close> produces for a \<^verbatim>\<open>bool\<close> argument.
\<close>

fun decimal :: "nat \<Rightarrow> string" where
  "decimal n =
     (if n < 10 then [char_of (48 + n)]
      else decimal (n div 10) @ [char_of (48 + n mod 10)])"

declare decimal.simps [simp del]

definition IntToString :: "int \<Rightarrow> string" where
  "IntToString i = (if i < 0 then CHR ''-'' # decimal (nat (- i)) else decimal (nat i))"

definition BoolToString :: "bool \<Rightarrow> string" where
  "BoolToString v = (if v then ''true'' else ''false'')"

text \<open>
  \<^verbatim>\<open>absl::Substitute(format, args...)\<close>: \<^verbatim>\<open>$0\<close> .. \<^verbatim>\<open>$9\<close> is replaced by the argument of
  that index and \<^verbatim>\<open>$$\<close> by a dollar sign. On a malformed format (a lone dollar sign, or an
  index without its argument) an optimised build leaves the output empty;
  \<open>SubstituteAndAppendArray\<close> returns \<open>None\<close> there.
\<close>

definition ascii_isdigit :: "char \<Rightarrow> bool" where
  "ascii_isdigit c = (48 \<le> (of_char c :: nat) \<and> (of_char c :: nat) \<le> 57)"

fun SubstituteAndAppendArray :: "string \<Rightarrow> string list \<Rightarrow> string option" where
  "SubstituteAndAppendArray [] args = Some []"
| "SubstituteAndAppendArray [c] args = (if c = CHR ''$'' then None else Some [c])"
| "SubstituteAndAppendArray (c # d # cs) args =
     (if c = CHR ''$'' then
        (if ascii_isdigit d then
           (let index = (of_char d :: nat) - 48 in
            if index \<ge> length args then None
            else map_option (\<lambda>rest. args ! index @ rest) (SubstituteAndAppendArray cs args))
         else if d = CHR ''$'' then
           map_option (\<lambda>rest. CHR ''$'' # rest) (SubstituteAndAppendArray cs args)
         else None)
      else map_option (\<lambda>rest. c # rest) (SubstituteAndAppendArray (d # cs) args))"

definition Substitute :: "string \<Rightarrow> string list \<Rightarrow> string" where
  "Substitute format args =
     (case SubstituteAndAppendArray format args of None \<Rightarrow> [] | Some s \<Rightarrow> s)"

text \<open>
  \<^verbatim>\<open>std::string::substr(pos)\<close> throws \<^verbatim>\<open>std::out_of_range\<close> when \<open>pos\<close> is beyond the end
  of the string.
\<close>

datatype std_exception = out_of_range

definition substr :: "string \<Rightarrow> nat \<Rightarrow> std_exception + string" where
  "substr s pos = (if pos > length s then Inl out_of_range else Inr (drop pos s))"

section \<open>Constants and join templates\<close>

definition kTableAliasPrefix :: string where
  "kTableAliasPrefix = ''table_''"

definition kBaseTableRef :: string where
  "kBaseTableRef = ''''"

definition kTypeTableRef :: string where
  "kTypeTableRef = ''type''"

definition kTypeJoinTable :: string where
  "kTypeJoinTable = raw_lines
     ['''',
      ''JOIN ('',
      ''  SELECT Type.id as type_id, Type.name as type'',
      ''  FROM Type'',
      ''  WHERE Type.type_kind = $2'',
      '') AS $1 ON $0.type_id = $1.type_id '']"

definition kContextJoinTableViaAttribution :: string where
  "kContextJoinTableViaAttribution = raw_lines
     ['''',
      ''JOIN ('',
      ''  SELECT Context.id, Context.name,'',
      ''         Type.name as type,'',
      ''         Attribution.artifact_id,'',
      ''         Context.create_time_since_epoch,'',
      ''         Context.last_update_time_since_epoch'',
      ''  FROM Context'',
      ''       JOIN Type ON Context.type_id = Type.id'',
      ''       JOIN Attribution ON Context.id = Attribution.context_id'',
      '') AS $1 ON $0.id = $1.artifact_id '']"

definition kContextJoinTableViaAssociation :: string where
  "kContextJoinTableViaAssociation = raw_lines
     ['''',
      ''JOIN ('',
      ''  SELECT Context.id, Context.name,'',
      ''         Type.name as type,'',
      ''         Association.execution_id,'',
      ''         Context.create_time_since_epoch,'',
      ''         Context.last_update_time_since_epoch'',
      '''',
      ''  FROM Context'',
      ''       JOIN Type ON Context.type_id = Type.id'',
      ''       JOIN Association ON Context.id = Association.context_id'',
      '') AS $1 ON $0.id = $1.execution_id '']"

definition kParentContextJoinTableViaParentContext :: string where
  "kParentContextJoinTableViaParentContext = raw_lines
     ['''',
      ''JOIN ('',
      ''  SELECT Context.name,'',
      ''         Type.name as type,'',
      ''         ParentContext.context_id as child_context_id'',
      ''  FROM Context'',
      ''       JOIN Type ON Context.type_id = Type.id'',
      ''       JOIN ParentContext ON Context.id = ParentContext.parent_context_id'',
      '') AS $1 ON $0.id = $1.child_context_id '']"

definition kChildContextJoinTableViaParentContext :: string where
  "kChildContextJoinTableViaParentContext = raw_lines
     ['''',
      ''JOIN ('',
      ''  SELECT Context.name,'',
      ''         Type.name as type,'',
      ''         ParentContext.parent_context_id as parent_context_id'',
      ''  FROM Context'',
      ''       JOIN Type ON Context.type_id = Type.id'',
      ''       JOIN ParentContext ON Context.id = ParentContext.context_id'',
      '') AS $1 ON $0.id = $1.parent_context_id '']"

definition kArtifactPropertyJoinTable :: string where
  "kArtifactPropertyJoinTable = raw_lines
     ['''',
      ''JOIN ('',
      ''  SELECT artifact_id, int_value, double_value, string_value'',
      ''  FROM ArtifactProperty WHERE name = '' @ [CHR 0x22] @ ''$2'' @ [CHR 0x22] @ '' AND is_custom_property = $3'',
      '') AS $1 ON $0.id = $1.artifact_id '']"

definition kExecutionPropertyJoinTable :: string where
  "kExecutionPropertyJoinTable = raw_lines
     ['''',
      ''JOIN ('',
      ''  SELECT execution_id, int_value, double_value, string_value'',
      ''  FROM ExecutionProperty WHERE name = '' @ [CHR 0x22] @ ''$2'' @ [CHR 0x22] @ '' AND is_custom_property = $3'',
      '') AS $1 ON $0.id = $1.execution_id '']"

definition kContextPropertyJoinTable :: string where
  "kContextPropertyJoinTable = raw_lines
     ['''',
      ''JOIN ('',
      ''  SELECT context_id, int_value, double_value, string_value'',
      ''  FROM ContextProperty WHERE name = '' @ [CHR 0x22] @ ''$2'' @ [CHR 0x22] @ '' AND is_custom_property = $3'',
      '') AS $1 ON $0.id = $1.context_id '']"

definition kArtifactEventJoinTable :: string where
  "kArtifactEventJoinTable = raw_lines
     ['''',
      ''JOIN Event AS $1 ON $0.id = $1.artifact_id '']"

definition kExecutionEventJoinTable :: string where
  "kExecutionEventJoinTable = raw_lines
     ['''',
      ''JOIN Event AS $1 ON $0.id = $1.execution_id '']"

section \<open>The join template catalog\<close>

text \<open>The template parameter \<open>T\<close> of \<^verbatim>\<open>FilterQueryBuilder<T>\<close>: the three instantiated node types.\<close>

datatype NodeKind = Artifact | Execution | Context

datatype TypeKind = ARTIFACT_TYPE | EXECUTION_TYPE | CONTEXT_TYPE

text \<open>
  \<^verbatim>\<open>GetTypeKindValue<T>()\<close> casts a \<^verbatim>\<open>TypeKind\<close> enumerator to \<^verbatim>\<open>int\<close>. The enumerators' numbers
  are declared in \<^verbatim>\<open>ml_metadata/metadata_store/constants.h\<close>, which is not among the sources,
  so the cast is the parameter \<open>enum_value\<close>.
\<close>

fun GetTypeKindValue :: "(TypeKind \<Rightarrow> int) \<Rightarrow> NodeKind \<Rightarrow> int" where
  "GetTypeKindValue enum_value Artifact = enum_value ARTIFACT_TYPE"
| "GetTypeKindValue enum_value Execution = enum_value EXECUTION_TYPE"
| "GetTypeKindValue enum_value Context = enum_value CONTEXT_TYPE"

text \<open>
  For \<open>T = Context\<close> the context and the event template lookups log an error and return the
  empty template.
\<close>

fun GetContextJoinTemplate :: "NodeKind \<Rightarrow> string" where
  "GetContextJoinTemplate Artifact = kContextJoinTableViaAttribution"
| "GetContextJoinTemplate Execution = kContextJoinTableViaAssociation"
| "GetContextJoinTemplate Context = ''''"

fun GetEventJoinTemplate :: "NodeKind \<Rightarrow> string" where
  "GetEventJoinTemplate Artifact = kArtifactEventJoinTable"
| "GetEventJoinTemplate Execution = kExecutionEventJoinTable"
| "GetEventJoinTemplate Context = ''''"

fun GetPropertyJoinTableImpl :: "NodeKind \<Rightarrow> string \<Rightarrow> string \<Rightarrow> string \<Rightarrow> bool \<Rightarrow> string" where
  "GetPropertyJoinTableImpl Artifact base_alias property_alias property_name is_custom_property =
     Substitute kArtifactPropertyJoinTable
       [base_alias, property_alias, property_name, BoolToString is_custom_property]"
| "GetPropertyJoinTableImpl Execution base_alias property_alias property_name is_custom_property =
     Substitute kExecutionPropertyJoinTable
       [base_alias, property_alias, property_name, BoolToString is_custom_property]"
| "GetPropertyJoinTableImpl Context base_alias property_alias property_name is_custom_property =
     Substitute kContextPropertyJoinTable
       [base_alias, property_alias, property_name, BoolToString is_custom_property]"

fun GetBaseNodeTable :: "NodeKind \<Rightarrow> string \<Rightarrow> string" where
  "GetBaseNodeTable Artifact base_alias = ''Artifact AS '' @ base_alias @ '' ''"
| "GetBaseNodeTable Execution base_alias = ''Execution AS '' @ base_alias @ '' ''"
| "GetBaseNodeTable Context base_alias = ''Context AS '' @ base_alias @ '' ''"

definition GetTypeJoinTable ::
  "(TypeKind \<Rightarrow> int) \<Rightarrow> NodeKind \<Rightarrow> string \<Rightarrow> string \<Rightarrow> string" where
  "GetTypeJoinTable enum_value T base_alias type_alias =
     Substitute kTypeJoinTable
       [base_alias, type_alias, IntToString (GetTypeKindValue enum_value T)]"

definition GetContextJoinTable :: "NodeKind \<Rightarrow> string \<Rightarrow> string \<Rightarrow> string" where
  "GetContextJoinTable T base_alias context_alias =
     Substitute (GetContextJoinTemplate T) [base_alias, context_alias]"

definition GetParentContextJoinTable :: "NodeKind \<Rightarrow> string \<Rightarrow> string \<Rightarrow> string" where
  "GetParentContextJoinTable T base_alias parent_context_alias =
     Substitute kParentContextJoinTableViaParentContext [base_alias, parent_context_alias]"

definition GetChildContextJoinTable :: "NodeKind \<Rightarrow> string \<Rightarrow> string \<Rightarrow> string" where
  "GetChildContextJoinTable T base_alias child_context_alias =
     Substitute kChildContextJoinTableViaParentContext [base_alias, child_context_alias]"

definition GetPropertyJoinTable :: "NodeKind \<Rightarrow> string \<Rightarrow> string \<Rightarrow> string \<Rightarrow> string" where
  "GetPropertyJoinTable T base_alias property_alias property_name =
     GetPropertyJoinTableImpl T base_alias property_alias property_name False"

definition GetCustomPropertyJoinTable :: "NodeKind \<Rightarrow> string \<Rightarrow> string \<Rightarrow> string \<Rightarrow> string" where
  "GetCustomPropertyJoinTable T base_alias property_alias property_name =
     GetPropertyJoinTableImpl T base_alias property_alias property_name True"

definition GetEventJoinTable :: "NodeKind \<Rightarrow> string \<Rightarrow> string \<Rightarrow> string" where
  "GetEventJoinTable T base_alias event_alias =
     Substitute (GetEventJoinTemplate T) [base_alias, event_alias]"

section \<open>The alias registry\<close>

datatype AtomType =
  ATTRIBUTE | CONTEXT | PROPERTY | CUSTOM_PROPERTY | PARENT_CONTEXT | CHILD_CONTEXT | EVENT

text \<open>
  Modelled from the spec: the members \<^verbatim>\<open>mentioned_alias_\<close> and \<^verbatim>\<open>alias_index_\<close> are declared in
  \<^verbatim>\<open>filter_query_builder.h\<close>, which is not among the sources. The spec describes the
  registry as a two-level mapping (relationship kind, then concept key, to alias) whose
  categories are iterated in insertion order, and the counter as strictly increasing.
  So the inner map is an association list in insertion order with one entry per key, a
  kind that has not been touched holds the empty list, and the counter is a natural
  number. (The fields drop the trailing underscore of the C++ names.)
\<close>

record FilterQueryBuilder =
  mentioned_alias :: "AtomType \<Rightarrow> (string \<times> string) list"
  alias_index :: nat

text \<open>\<^verbatim>\<open>map.contains(key)\<close>, reading \<^verbatim>\<open>map[key]\<close> and assigning \<^verbatim>\<open>map[key] = value\<close>.\<close>

definition contains :: "(string \<times> string) list \<Rightarrow> string \<Rightarrow> bool" where
  "contains m k = (k \<in> set (map fst m))"

definition subscript :: "(string \<times> string) list \<Rightarrow> string \<Rightarrow> string" where
  "subscript m k = (case map_of m k of None \<Rightarrow> [] | Some v \<Rightarrow> v)"

definition assign :: "(string \<times> string) list \<Rightarrow> string \<Rightarrow> string \<Rightarrow> (string \<times> string) list" where
  "assign m k v = AList.update k v m"

text \<open>
  The constructor seeds the base table alias. \<^verbatim>\<open>kBaseTableAlias\<close> and the initial value of
  \<^verbatim>\<open>alias_index_\<close> are set in the absent header; they are the parameters of the constructor.
\<close>

definition FilterQueryBuilder_ctor :: "string \<Rightarrow> nat \<Rightarrow> FilterQueryBuilder" where
  "FilterQueryBuilder_ctor kBaseTableAlias alias_index_init =
     \<lparr> mentioned_alias = (\<lambda>_. [])(ATTRIBUTE := [(kBaseTableRef, kBaseTableAlias)]),
       alias_index = alias_index_init \<rparr>"

text \<open>
  \<^verbatim>\<open>zetasql::ToIdentifierLiteral\<close> belongs to the ZetaSQL library; it is the parameter
  \<open>ToIdentifierLiteral\<close> of every function that calls it.
\<close>

definition GetTableAlias ::
  "(string \<Rightarrow> string) \<Rightarrow> AtomType \<Rightarrow> string \<Rightarrow> FilterQueryBuilder \<Rightarrow> string \<times> FilterQueryBuilder" where
  "GetTableAlias ToIdentifierLiteral atom_type concept_name b =
     (let b' =
        (if \<not> contains (mentioned_alias b atom_type) concept_name then
           b\<lparr> alias_index := alias_index b + 1,
              mentioned_alias := (mentioned_alias b)
                (atom_type := assign (mentioned_alias b atom_type) concept_name
                   (kTableAliasPrefix @ decimal (alias_index b + 1))) \<rparr>
         else b)
      in (ToIdentifierLiteral (subscript (mentioned_alias b' atom_type) concept_name), b'))"

section \<open>The neighbor reference translator\<close>

datatype ResolvedExpressionColumn =
  ResolvedExpressionColumn (IsStruct: bool) (name: string)

datatype Status = UnimplementedError string

text \<open>
  \<^verbatim>\<open>VisitResolvedExpressionColumn\<close> returns the status; the text it hands to
  \<^verbatim>\<open>PushQueryFragment\<close> and the updated builder are returned with \<open>Inr\<close>.
\<close>

definition VisitResolvedExpressionColumn ::
  "(string \<Rightarrow> string) \<Rightarrow> ResolvedExpressionColumn \<Rightarrow> FilterQueryBuilder
     \<Rightarrow> Status + (string \<times> FilterQueryBuilder)" where
  "VisitResolvedExpressionColumn ToIdentifierLiteral node b =
     (if IsStruct node then
        (let neighbor_name = name node in
         if StartsWith neighbor_name ''contexts_'' then
           Inr (GetTableAlias ToIdentifierLiteral CONTEXT neighbor_name b)
         else if StartsWith neighbor_name ''properties_'' then
           Inr (GetTableAlias ToIdentifierLiteral PROPERTY neighbor_name b)
         else if StartsWith neighbor_name ''custom_properties_'' then
           Inr (GetTableAlias ToIdentifierLiteral CUSTOM_PROPERTY neighbor_name b)
         else if StartsWith neighbor_name ''parent_contexts_'' then
           Inr (GetTableAlias ToIdentifierLiteral PARENT_CONTEXT neighbor_name b)
         else if StartsWith neighbor_name ''child_contexts_'' then
           Inr (GetTableAlias ToIdentifierLiteral CHILD_CONTEXT neighbor_name b)
         else if StartsWith neighbor_name ''events_'' then
           Inr (GetTableAlias ToIdentifierLiteral EVENT neighbor_name b)
         else
           Inl (UnimplementedError
             (''context-executions and context-artifacts are not supported yet in'' @
              '' filtering predicate.'')))
      else
        (if name node \<noteq> ''type'' then
           (case GetTableAlias ToIdentifierLiteral ATTRIBUTE kBaseTableRef b of
              (alias, b') \<Rightarrow> Inr (alias @ ''.'' @ ToIdentifierLiteral (name node), b'))
         else
           (case GetTableAlias ToIdentifierLiteral ATTRIBUTE kTypeTableRef b of
              (alias, b') \<Rightarrow> Inr (alias @ ''.'' @ ToIdentifierLiteral kTypeTableRef, b'))))"

text \<open>
  The predicate tree is walked by \<^verbatim>\<open>zetasql::SQLBuilder\<close>, the base class: the children of a
  node are visited from left to right, the first status that is not OK ends the walk, and
  the texts of the children are combined into the text of the node. A node other than a
  column reference is an \<open>Operator\<close> with a tag; how the library renders it is the
  parameter \<open>render\<close>.
\<close>

datatype ResolvedExpr =
  Column ResolvedExpressionColumn
| Operator string "ResolvedExpr list"

fun Visit ::
  "(string \<Rightarrow> string) \<Rightarrow> (string \<Rightarrow> string list \<Rightarrow> string) \<Rightarrow> ResolvedExpr
     \<Rightarrow> FilterQueryBuilder \<Rightarrow> Status + (string \<times> FilterQueryBuilder)"
and VisitChildren ::
  "(string \<Rightarrow> string) \<Rightarrow> (string \<Rightarrow> string list \<Rightarrow> string) \<Rightarrow> ResolvedExpr list
     \<Rightarrow> FilterQueryBuilder \<Rightarrow> Status + (string list \<times> FilterQueryBuilder)" where
  "Visit q render (Column node) b = VisitResolvedExpressionColumn q node b"
| "Visit q render (Operator tag args) b =
     (case VisitChildren q render args b of
        Inl status \<Rightarrow> Inl status
      | Inr (texts, b') \<Rightarrow> Inr (render tag texts, b'))"
| "VisitChildren q render [] b = Inr ([], b)"
| "VisitChildren q render (e # es) b =
     (case Visit q render e b of
        Inl status \<Rightarrow> Inl status
      | Inr (text, b') \<Rightarrow>
          (case VisitChildren q render es b' of
             Inl status \<Rightarrow> Inl status
           | Inr (texts, b'') \<Rightarrow> Inr (text # texts, b'')))"

section \<open>The clause assembler\<close>

text \<open>The two loops of \<^verbatim>\<open>GetFromClause\<close> that strip a prefix of fixed length from each key.\<close>

fun AppendPropertyJoins ::
  "NodeKind \<Rightarrow> string \<Rightarrow> (string \<times> string) list \<Rightarrow> string \<Rightarrow> std_exception + string" where
  "AppendPropertyJoins T base_alias [] result = Inr result"
| "AppendPropertyJoins T base_alias (mentioned_property # rest) result =
     (let property_alias = snd mentioned_property;
          kPropertyPrefix = ''properties_'' in
      case substr (fst mentioned_property) (length kPropertyPrefix) of
        Inl ex \<Rightarrow> Inl ex
      | Inr property_name \<Rightarrow>
          AppendPropertyJoins T base_alias rest
            (result @ GetPropertyJoinTable T base_alias property_alias property_name))"

fun AppendCustomPropertyJoins ::
  "NodeKind \<Rightarrow> string \<Rightarrow> (string \<times> string) list \<Rightarrow> string \<Rightarrow> std_exception + string" where
  "AppendCustomPropertyJoins T base_alias [] result = Inr result"
| "AppendCustomPropertyJoins T base_alias (mentioned_property # rest) result =
     (let property_alias = snd mentioned_property;
          kPropertyPrefix = ''custom_properties_'' in
      case substr (fst mentioned_property) (length kPropertyPrefix) of
        Inl ex \<Rightarrow> Inl ex
      | Inr property_name \<Rightarrow>
          AppendCustomPropertyJoins T base_alias rest
            (result @ GetCustomPropertyJoinTable T base_alias property_alias property_name))"

text \<open>
  \<^verbatim>\<open>GetFromClause\<close> returns the text alone. Reading \<^verbatim>\<open>map[key]\<close> would insert an empty
  alias for a key that is absent; the base key is seeded by the constructor and the type
  key is read only when present, so no such entry arises. An exception thrown by
  \<open>substr\<close> leaves the function with \<open>Inl\<close>.
\<close>

definition GetFromClause ::
  "(TypeKind \<Rightarrow> int) \<Rightarrow> NodeKind \<Rightarrow> FilterQueryBuilder \<Rightarrow> std_exception + string" where
  "GetFromClause enum_value T b =
     (let base_alias = subscript (mentioned_alias b ATTRIBUTE) kBaseTableRef;
          result = GetBaseNodeTable T base_alias;
          result =
            (if contains (mentioned_alias b ATTRIBUTE) kTypeTableRef then
               result @ GetTypeJoinTable enum_value T base_alias
                          (subscript (mentioned_alias b ATTRIBUTE) kTypeTableRef)
             else result);
          result = foldl (\<lambda>result mentioned_context.
                      result @ GetContextJoinTable T base_alias (snd mentioned_context))
                    result (mentioned_alias b CONTEXT)
      in case AppendPropertyJoins T base_alias (mentioned_alias b PROPERTY) result of
           Inl ex \<Rightarrow> Inl ex
         | Inr result \<Rightarrow>
      (case AppendCustomPropertyJoins T base_alias (mentioned_alias b CUSTOM_PROPERTY) result of
           Inl ex \<Rightarrow> Inl ex
         | Inr result \<Rightarrow>
      (let result = foldl (\<lambda>result parent_contexts.
                      result @ GetParentContextJoinTable T base_alias (snd parent_contexts))
                    result (mentioned_alias b PARENT_CONTEXT);
           result = foldl (\<lambda>result child_contexts.
                      result @ GetChildContextJoinTable T base_alias (snd child_contexts))
                    result (mentioned_alias b CHILD_CONTEXT);
           result = foldl (\<lambda>result event.
                      result @ GetEventJoinTable T base_alias (snd event))
                    result (mentioned_alias b EVENT)
       in Inr result)))"

section \<open>Notions for stating the properties\<close>

text \<open>The column references of a predicate tree, from left to right.\<close>

fun columns :: "ResolvedExpr \<Rightarrow> ResolvedExpressionColumn list" where
  "columns (Column node) = [node]"
| "columns (Operator tag args) = concat (map columns args)"

text \<open>
  The calls of \<open>VisitResolvedExpressionColumn\<close> that a walk makes, one after the other,
  with the text each call pushes.
\<close>

fun VisitColumns ::
  "(string \<Rightarrow> string) \<Rightarrow> ResolvedExpressionColumn list \<Rightarrow> FilterQueryBuilder
     \<Rightarrow> Status + (string list \<times> FilterQueryBuilder)" where
  "VisitColumns q [] b = Inr ([], b)"
| "VisitColumns q (node # nodes) b =
     (case VisitResolvedExpressionColumn q node b of
        Inl status \<Rightarrow> Inl status
      | Inr (text, b') \<Rightarrow>
          (case VisitColumns q nodes b' of
             Inl status \<Rightarrow> Inl status
           | Inr (texts, b'') \<Rightarrow> Inr (text # texts, b'')))"

text \<open>
  The concept a column reference stands for: the atom type and the concept name that
  \<open>VisitResolvedExpressionColumn\<close> passes to \<open>GetTableAlias\<close> for it, \<open>None\<close> where it
  returns the unimplemented status.
\<close>

definition concept_of :: "ResolvedExpressionColumn \<Rightarrow> (AtomType \<times> string) option" where
  "concept_of node =
     (if IsStruct node then
        (if StartsWith (name node) ''contexts_'' then Some (CONTEXT, name node)
         else if StartsWith (name node) ''properties_'' then Some (PROPERTY, name node)
         else if StartsWith (name node) ''custom_properties_'' then
           Some (CUSTOM_PROPERTY, name node)
         else if StartsWith (name node) ''parent_contexts_'' then
           Some (PARENT_CONTEXT, name node)
         else if StartsWith (name node) ''child_contexts_'' then
           Some (CHILD_CONTEXT, name node)
         else if StartsWith (name node) ''events_'' then Some (EVENT, name node)
         else None)
      else if name node \<noteq> ''type'' then Some (ATTRIBUTE, kBaseTableRef)
      else Some (ATTRIBUTE, kTypeTableRef))"

text \<open>The text pushed for a column reference whose alias text is \<open>alias\<close>.\<close>

definition reference_text ::
  "(string \<Rightarrow> string) \<Rightarrow> ResolvedExpressionColumn \<Rightarrow> string \<Rightarrow> string" where
  "reference_text q node alias =
     (if IsStruct node then alias else alias @ ''.'' @ q (name node))"

text \<open>
  The concepts a list of column references mentions: every concept but the base table,
  which the constructor seeds.
\<close>

definition mentioned_concepts :: "ResolvedExpressionColumn list \<Rightarrow> (AtomType \<times> string) set" where
  "mentioned_concepts nodes =
     set (List.map_filter concept_of nodes) - {(ATTRIBUTE, kBaseTableRef)}"

text \<open>
  The concepts of a list of column references that are not yet in \<open>seen\<close>, each once, in
  the order of their first mention.
\<close>

fun first_mentions ::
  "(AtomType \<times> string) list \<Rightarrow> ResolvedExpressionColumn list \<Rightarrow> (AtomType \<times> string) list" where
  "first_mentions seen [] = []"
| "first_mentions seen (node # nodes) =
     (case concept_of node of
        None \<Rightarrow> first_mentions seen nodes
      | Some c \<Rightarrow>
          if c \<in> set seen then first_mentions seen nodes
          else c # first_mentions (c # seen) nodes)"

text \<open>The alias minted at counter value \<open>n\<close>.\<close>

definition TableAlias :: "nat \<Rightarrow> string" where
  "TableAlias n = kTableAliasPrefix @ decimal n"

text \<open>All bindings of the registry, each with its atom type, in the order of \<open>GetFromClause\<close>.\<close>

definition atom_types :: "AtomType list" where
  "atom_types =
     [ATTRIBUTE, CONTEXT, PROPERTY, CUSTOM_PROPERTY, PARENT_CONTEXT, CHILD_CONTEXT, EVENT]"

definition bindings :: "FilterQueryBuilder \<Rightarrow> ((AtomType \<times> string) \<times> string) list" where
  "bindings b =
     concat (map (\<lambda>a. map (\<lambda>kv. ((a, fst kv), snd kv)) (mentioned_alias b a)) atom_types)"

text \<open>
  The fragments that \<open>GetFromClause\<close> appends, in its order, each with the concept it is
  emitted for.
\<close>

definition FromFragments ::
  "(TypeKind \<Rightarrow> int) \<Rightarrow> NodeKind \<Rightarrow> FilterQueryBuilder \<Rightarrow> ((AtomType \<times> string) \<times> string) list" where
  "FromFragments enum_value T b =
     (let base_alias = subscript (mentioned_alias b ATTRIBUTE) kBaseTableRef in
      [((ATTRIBUTE, kBaseTableRef), GetBaseNodeTable T base_alias)] @
      (if contains (mentioned_alias b ATTRIBUTE) kTypeTableRef then
         [((ATTRIBUTE, kTypeTableRef),
           GetTypeJoinTable enum_value T base_alias
             (subscript (mentioned_alias b ATTRIBUTE) kTypeTableRef))]
       else []) @
      map (\<lambda>kv. ((CONTEXT, fst kv), GetContextJoinTable T base_alias (snd kv)))
        (mentioned_alias b CONTEXT) @
      map (\<lambda>kv. ((PROPERTY, fst kv),
                 GetPropertyJoinTable T base_alias (snd kv)
                   (drop (length ''properties_'') (fst kv))))
        (mentioned_alias b PROPERTY) @
      map (\<lambda>kv. ((CUSTOM_PROPERTY, fst kv),
                 GetCustomPropertyJoinTable T base_alias (snd kv)
                   (drop (length ''custom_properties_'') (fst kv))))
        (mentioned_alias b CUSTOM_PROPERTY) @
      map (\<lambda>kv. ((PARENT_CONTEXT, fst kv), GetParentContextJoinTable T base_alias (snd kv)))
        (mentioned_alias b PARENT_CONTEXT) @
      map (\<lambda>kv. ((CHILD_CONTEXT, fst kv), GetChildContextJoinTable T base_alias (snd kv)))
        (mentioned_alias b CHILD_CONTEXT) @
      map (\<lambda>kv. ((EVENT, fst kv), GetEventJoinTable T base_alias (snd kv)))
        (mentioned_alias b EVENT))"

text \<open>
  The fragment that \<open>GetFromClause\<close> appends for one binding: the concept, its alias and
  the base alias decide it.
\<close>

fun JoinFragment ::
  "(TypeKind \<Rightarrow> int) \<Rightarrow> NodeKind \<Rightarrow> string \<Rightarrow> AtomType \<times> string \<Rightarrow> string \<Rightarrow> string" where
  "JoinFragment enum_value T base_alias (ATTRIBUTE, k) al =
     (if k = kBaseTableRef then GetBaseNodeTable T al
      else GetTypeJoinTable enum_value T base_alias al)"
| "JoinFragment enum_value T base_alias (CONTEXT, k) al = GetContextJoinTable T base_alias al"
| "JoinFragment enum_value T base_alias (PROPERTY, k) al =
     GetPropertyJoinTable T base_alias al (drop (length ''properties_'') k)"
| "JoinFragment enum_value T base_alias (CUSTOM_PROPERTY, k) al =
     GetCustomPropertyJoinTable T base_alias al (drop (length ''custom_properties_'') k)"
| "JoinFragment enum_value T base_alias (PARENT_CONTEXT, k) al =
     GetParentContextJoinTable T base_alias al"
| "JoinFragment enum_value T base_alias (CHILD_CONTEXT, k) al =
     GetChildContextJoinTable T base_alias al"
| "JoinFragment enum_value T base_alias (EVENT, k) al = GetEventJoinTable T base_alias al"

text \<open>The fragments that show in the FROM text: the non-empty ones.\<close>

definition TableFragments ::
  "(TypeKind \<Rightarrow> int) \<Rightarrow> NodeKind \<Rightarrow> FilterQueryBuilder \<Rightarrow> ((AtomType \<times> string) \<times> string) list" where
  "TableFragments enum_value T b = filter (\<lambda>f. snd f \<noteq> []) (FromFragments enum_value T b)"

text \<open>
  The shape of the key that \<open>VisitResolvedExpressionColumn\<close> registers under each atom
  type.
\<close>

fun key_ok :: "AtomType \<times> string \<Rightarrow> bool" where
  "key_ok (ATTRIBUTE, k) = (k = kBaseTableRef \<or> k = kTypeTableRef)"
| "key_ok (CONTEXT, k) = StartsWith k ''contexts_''"
| "key_ok (PROPERTY, k) = StartsWith k ''properties_''"
| "key_ok (CUSTOM_PROPERTY, k) = StartsWith k ''custom_properties_''"
| "key_ok (PARENT_CONTEXT, k) = StartsWith k ''parent_contexts_''"
| "key_ok (CHILD_CONTEXT, k) = StartsWith k ''child_contexts_''"
| "key_ok (EVENT, k) = StartsWith k ''events_''"

text \<open>
  The invariant of the registry between two calls: the base binding comes first, no
  concept is bound twice, every key has the shape of its atom type, and the aliases
  bound after the base one are exactly those minted since construction.
\<close>

definition registry_ok :: "string \<Rightarrow> nat \<Rightarrow> FilterQueryBuilder \<Rightarrow> bool" where
  "registry_ok kBaseTableAlias alias_index_init b =
     (alias_index_init \<le> alias_index b
      \<and> distinct (map fst (bindings b))
      \<and> list_all key_ok (map fst (bindings b))
      \<and> (\<exists>rest. mentioned_alias b ATTRIBUTE = (kBaseTableRef, kBaseTableAlias) # rest)
      \<and> mset (map snd (tl (bindings b)))
          = mset (map TableAlias [Suc alias_index_init ..< Suc (alias_index b)]))"

text \<open>
  Modelled from the spec: the caller that drives the builder is not among the sources.
  The spec has a fresh builder for each compilation, the tree walked once through the
  translator, and then the assembler invoked once; \<open>GetWhereClause\<close> returns the text
  of the root and \<open>GetFromClause\<close> the joins. A status that is not OK ends the
  compilation with that status and no text.
\<close>

definition Compile ::
  "(string \<Rightarrow> string) \<Rightarrow> (string \<Rightarrow> string list \<Rightarrow> string) \<Rightarrow> (TypeKind \<Rightarrow> int)
     \<Rightarrow> string \<Rightarrow> nat \<Rightarrow> NodeKind \<Rightarrow> ResolvedExpr
     \<Rightarrow> Status + (std_exception + string) \<times> string" where
  "Compile q render enum_value kBaseTableAlias alias_index_init T e =
     (case Visit q render e (FilterQueryBuilder_ctor kBaseTableAlias alias_index_init) of
        Inl status \<Rightarrow> Inl status
      | Inr (where_clause, b) \<Rightarrow> Inr (GetFromClause enum_value T b, where_clause))"

text \<open>Sample parameters for concrete runs: a renderer for operators and enumerator numbers.\<close>

definition render_call :: "string \<Rightarrow> string list \<Rightarrow> string" where
  "render_call tag texts = tag @ ''('' @ concat (map (\<lambda>t. t @ '';'') texts) @ '')''"

fun sample_enum_value :: "TypeKind \<Rightarrow> int" where
  "sample_enum_value EXECUTION_TYPE = 0"
| "sample_enum_value ARTIFACT_TYPE = 1"
| "sample_enum_value CONTEXT_TYPE = 2"

section \<open>Auxiliary facts\<close>

subsection \<open>Decimal numerals\<close>

lemma decimal_nonempty: "decimal n \<noteq> []"
  by (subst decimal.simps) simp

lemma digit_inj:
  assumes "a < 10" and "b < 10" and "char_of (48 + a :: nat) = char_of (48 + b)"
  shows "a = b"
proof -
  from assms(3) have "(of_char (char_of (48 + a)) :: nat) = of_char (char_of (48 + b))"
    by simp
  then have "(48 + a) mod 256 = (48 + b) mod 256" by (simp only: of_char_of)
  with assms(1,2) show "a = b" by simp
qed

lemma decimal_inj: "decimal n = decimal m \<Longrightarrow> n = m"
proof (induction n arbitrary: m rule: decimal.induct)
  case (1 n)
  show ?case
  proof (cases "n < 10")
    case True
    show ?thesis
    proof (cases "m < 10")
      case mT: True
      from "1.prems" True mT have "char_of (48 + n) = char_of (48 + m)"
        by (simp add: decimal.simps [of n] decimal.simps [of m])
      then show ?thesis using True mT digit_inj by blast
    next
      case False
      with "1.prems" True have "decimal (m div 10) = []"
        by (simp add: decimal.simps [of n] decimal.simps [of m])
      then show ?thesis using decimal_nonempty by blast
    qed
  next
    case False
    show ?thesis
    proof (cases "m < 10")
      case True
      with "1.prems" False have "decimal (n div 10) = []"
        by (simp add: decimal.simps [of n] decimal.simps [of m])
      then show ?thesis using decimal_nonempty by blast
    next
      case mF: False
      from "1.prems" False mF
      have e: "decimal (n div 10) = decimal (m div 10)"
        and d: "char_of (48 + n mod 10) = char_of (48 + m mod 10)"
        by (simp_all add: decimal.simps [of n] decimal.simps [of m])
      from "1.IH" [OF False e] have "n div 10 = m div 10" .
      moreover from d have "n mod 10 = m mod 10" by (intro digit_inj) simp_all
      ultimately show ?thesis by (metis div_mult_mod_eq)
    qed
  qed
qed

lemma TableAlias_inj: "TableAlias n = TableAlias m \<Longrightarrow> n = m"
  by (simp add: TableAlias_def decimal_inj)

lemma decimal_digits:
  "decimal 0 = ''0''" "decimal (Suc 0) = ''1''" "decimal 1 = ''1''" "decimal 2 = ''2''"
  "decimal 3 = ''3''" "decimal 4 = ''4''" "decimal 5 = ''5''" "decimal 6 = ''6''"
  "decimal 7 = ''7''" "decimal 8 = ''8''" "decimal 9 = ''9''"
  "decimal (Suc (Suc 0)) = ''2''" "decimal (Suc (Suc (Suc 0))) = ''3''"
  "decimal (Suc (Suc (Suc (Suc 0)))) = ''4''"
  by code_simp+

subsection \<open>The registry\<close>

lemma update_absent: "k \<notin> fst ` set m \<Longrightarrow> AList.update k v m = m @ [(k, v)]"
  by (induction m) auto

lemma subscript_snoc: "k \<notin> fst ` set m \<Longrightarrow> subscript (m @ [(k, v)]) k = v"
  by (simp add: subscript_def map_add_def map_of_eq_None_iff [THEN iffD2])

lemma GetTableAlias_old:
  "contains (mentioned_alias b a) k \<Longrightarrow>
     GetTableAlias q a k b = (q (subscript (mentioned_alias b a) k), b)"
  by (simp add: GetTableAlias_def)

lemma GetTableAlias_new:
  "\<not> contains (mentioned_alias b a) k \<Longrightarrow>
     GetTableAlias q a k b =
       (q (TableAlias (Suc (alias_index b))),
        b\<lparr> alias_index := Suc (alias_index b),
           mentioned_alias := (mentioned_alias b)
             (a := mentioned_alias b a @ [(k, TableAlias (Suc (alias_index b)))]) \<rparr>)"
  by (simp add: GetTableAlias_def contains_def assign_def update_absent subscript_snoc
      TableAlias_def)

lemma bindings_unfold:
  "bindings b =
     map (\<lambda>kv. ((ATTRIBUTE, fst kv), snd kv)) (mentioned_alias b ATTRIBUTE) @
     map (\<lambda>kv. ((CONTEXT, fst kv), snd kv)) (mentioned_alias b CONTEXT) @
     map (\<lambda>kv. ((PROPERTY, fst kv), snd kv)) (mentioned_alias b PROPERTY) @
     map (\<lambda>kv. ((CUSTOM_PROPERTY, fst kv), snd kv)) (mentioned_alias b CUSTOM_PROPERTY) @
     map (\<lambda>kv. ((PARENT_CONTEXT, fst kv), snd kv)) (mentioned_alias b PARENT_CONTEXT) @
     map (\<lambda>kv. ((CHILD_CONTEXT, fst kv), snd kv)) (mentioned_alias b CHILD_CONTEXT) @
     map (\<lambda>kv. ((EVENT, fst kv), snd kv)) (mentioned_alias b EVENT)"
  by (simp add: bindings_def atom_types_def)

lemma in_atom_types: "a \<in> set atom_types"
  by (cases a) (simp_all add: atom_types_def)

lemma in_bindings:
  "((a, k), v) \<in> set (bindings b) \<longleftrightarrow> (k, v) \<in> set (mentioned_alias b a)"
  using in_atom_types [of a] by (force simp: bindings_def)

lemma keys_bindings:
  "(a, k) \<in> fst ` set (bindings b) \<longleftrightarrow> k \<in> fst ` set (mentioned_alias b a)"
proof -
  have "(a, k) \<in> fst ` set (bindings b) \<longleftrightarrow> (\<exists>v. ((a, k), v) \<in> set (bindings b))"
    by force
  also have "\<dots> \<longleftrightarrow> (\<exists>v. (k, v) \<in> set (mentioned_alias b a))"
    by (simp add: in_bindings)
  also have "\<dots> \<longleftrightarrow> k \<in> fst ` set (mentioned_alias b a)"
    by force
  finally show ?thesis .
qed

lemma bindings_snoc:
  "mset (bindings (b\<lparr> alias_index := i,
       mentioned_alias := (mentioned_alias b)(a := mentioned_alias b a @ [(k, v)]) \<rparr>))
   = add_mset ((a, k), v) (mset (bindings b))"
  by (cases a) (simp_all add: bindings_unfold)

lemma VisitResolvedExpressionColumn_concept:
  "VisitResolvedExpressionColumn q node b =
     (case concept_of node of
        None \<Rightarrow> Inl (UnimplementedError
          ''context-executions and context-artifacts are not supported yet in filtering predicate.'')
      | Some c \<Rightarrow>
          (case GetTableAlias q (fst c) (snd c) b of
             (alias, b') \<Rightarrow> Inr (reference_text q node alias, b')))"
  by (simp add: VisitResolvedExpressionColumn_def concept_of_def reference_text_def Let_def
      kTypeTableRef_def split: prod.split)

lemma concept_key_ok: "concept_of node = Some c \<Longrightarrow> key_ok c"
  by (auto simp: concept_of_def split: if_splits)


lemma bindings_ctor:
  "bindings (FilterQueryBuilder_ctor kB i0) = [((ATTRIBUTE, kBaseTableRef), kB)]"
  by (simp add: bindings_unfold FilterQueryBuilder_ctor_def)

lemma registry_ok_ctor: "registry_ok kB i0 (FilterQueryBuilder_ctor kB i0)"
  unfolding registry_ok_def bindings_ctor
  by (simp add: FilterQueryBuilder_ctor_def)

lemma bindings_head:
  "mentioned_alias b ATTRIBUTE = (kBaseTableRef, kB) # rest \<Longrightarrow>
     bindings b = ((ATTRIBUTE, kBaseTableRef), kB) # tl (bindings b)"
  by (simp add: bindings_unfold)

lemma registry_ok_snoc:
  assumes ok: "registry_ok kB i0 b"
    and new: "\<not> contains (mentioned_alias b a) k"
    and key: "key_ok (a, k)"
  shows "registry_ok kB i0
           (b\<lparr> alias_index := Suc (alias_index b),
              mentioned_alias := (mentioned_alias b)
                (a := mentioned_alias b a @ [(k, TableAlias (Suc (alias_index b)))]) \<rparr>)"
    (is "registry_ok kB i0 ?b'")
proof -
  let ?v = "TableAlias (Suc (alias_index b))"
  from ok obtain rest where
    le: "i0 \<le> alias_index b"
    and dist: "distinct (map fst (bindings b))"
    and keys: "list_all key_ok (map fst (bindings b))"
    and head: "mentioned_alias b ATTRIBUTE = (kBaseTableRef, kB) # rest"
    and vals: "mset (map snd (tl (bindings b))) = mset (map TableAlias [Suc i0 ..< Suc (alias_index b)])"
    unfolding registry_ok_def by blast
  have m: "mset (bindings ?b') = add_mset ((a, k), ?v) (mset (bindings b))"
    by (rule bindings_snoc)
  have fresh: "(a, k) \<notin> set (map fst (bindings b))"
    using new by (simp add: keys_bindings contains_def)
  have mk: "mset (map fst (bindings ?b')) = mset ((a, k) # map fst (bindings b))"
    using m by (metis fst_conv list.simps(9) mset.simps(2) mset_map)
  have d': "distinct (map fst (bindings ?b'))"
    using mset_eq_imp_distinct_iff [OF mk] dist fresh by simp
  have k': "list_all key_ok (map fst (bindings ?b'))"
    using mset_eq_setD [OF mk] keys key by (simp add: list_all_iff)
  have head': "\<exists>rest'. mentioned_alias ?b' ATTRIBUTE = (kBaseTableRef, kB) # rest'"
    using head by (cases "a = ATTRIBUTE") simp_all
  then obtain rest' where h': "mentioned_alias ?b' ATTRIBUTE = (kBaseTableRef, kB) # rest'" ..
  have b1: "bindings b = ((ATTRIBUTE, kBaseTableRef), kB) # tl (bindings b)"
    by (rule bindings_head [OF head])
  have b2: "bindings ?b' = ((ATTRIBUTE, kBaseTableRef), kB) # tl (bindings ?b')"
    by (rule bindings_head [OF h'])
  have "add_mset ((ATTRIBUTE, kBaseTableRef), kB) (mset (tl (bindings ?b')))
        = add_mset ((a, k), ?v) (add_mset ((ATTRIBUTE, kBaseTableRef), kB) (mset (tl (bindings b))))"
    using m by (metis b1 b2 mset.simps(2))
  then have mt: "mset (tl (bindings ?b')) = add_mset ((a, k), ?v) (mset (tl (bindings b)))"
    by simp
  have "mset (map snd (tl (bindings ?b'))) = add_mset ?v (mset (map snd (tl (bindings b))))"
    using mt by (metis image_mset_add_mset mset_map snd_conv)
  also have "\<dots> = mset (map TableAlias [Suc i0 ..< Suc (Suc (alias_index b))])"
    using le vals by simp
  finally have v': "mset (map snd (tl (bindings ?b')))
      = mset (map TableAlias [Suc i0 ..< Suc (alias_index ?b')])" by simp
  show ?thesis
    unfolding registry_ok_def using le d' k' head' v' by simp
qed

lemma registry_ok_GetTableAlias:
  assumes "registry_ok kB i0 b" and "key_ok (a, k)" and "GetTableAlias q a k b = (t, b')"
  shows "registry_ok kB i0 b'"
proof (cases "contains (mentioned_alias b a) k")
  case True
  with assms show ?thesis by (simp add: GetTableAlias_old)
next
  case False
  from assms(3) have "b' = b\<lparr> alias_index := Suc (alias_index b),
              mentioned_alias := (mentioned_alias b)
                (a := mentioned_alias b a @ [(k, TableAlias (Suc (alias_index b)))]) \<rparr>"
    by (simp add: GetTableAlias_new [OF False])
  then show ?thesis using registry_ok_snoc [OF assms(1) False assms(2)] by simp
qed

lemma registry_ok_column:
  assumes "registry_ok kB i0 b" and "VisitResolvedExpressionColumn q node b = Inr (t, b')"
  shows "registry_ok kB i0 b'"
proof -
  from assms(2) obtain c al where c: "concept_of node = Some c"
    and g: "GetTableAlias q (fst c) (snd c) b = (al, b')"
    by (auto simp: VisitResolvedExpressionColumn_concept split: option.splits prod.splits)
  from concept_key_ok [OF c] have "key_ok (fst c, snd c)" by simp
  from registry_ok_GetTableAlias [OF assms(1) this g] show ?thesis .
qed

lemma registry_ok_VisitColumns:
  "registry_ok kB i0 b \<Longrightarrow> VisitColumns q nodes b = Inr (ts, b') \<Longrightarrow> registry_ok kB i0 b'"
proof (induction nodes arbitrary: b ts)
  case Nil
  then show ?case by simp
next
  case (Cons node nodes)
  from Cons.prems(2) obtain t b1 ts' where
    s: "VisitResolvedExpressionColumn q node b = Inr (t, b1)"
    and r: "VisitColumns q nodes b1 = Inr (ts', b')"
    by (auto split: sum.splits prod.splits)
  from Cons.IH [OF registry_ok_column [OF Cons.prems(1) s] r] show ?case .
qed


lemma GetTableAlias_stable:
  assumes "GetTableAlias q a k b = (t, b')" and "map_of (mentioned_alias b a') k' = Some v"
  shows "map_of (mentioned_alias b' a') k' = Some v"
proof (cases "contains (mentioned_alias b a) k")
  case True
  with assms show ?thesis by (simp add: GetTableAlias_old)
next
  case False
  with assms show ?thesis by (auto simp: GetTableAlias_new map_add_def)
qed

lemma GetTableAlias_bound:
  assumes "GetTableAlias q a k b = (t, b')"
  shows "\<exists>v. map_of (mentioned_alias b' a) k = Some v \<and> t = q v"
proof (cases "contains (mentioned_alias b a) k")
  case True
  then obtain v where "map_of (mentioned_alias b a) k = Some v"
    by (metis contains_def set_map map_of_eq_None_iff not_Some_eq)
  with True assms show ?thesis by (simp add: GetTableAlias_old subscript_def)
next
  case False
  then have "map_of (mentioned_alias b a) k = None"
    by (simp add: contains_def map_of_eq_None_iff)
  with False assms show ?thesis by (auto simp: GetTableAlias_new map_add_def)
qed

lemma GetTableAlias_keys:
  assumes "GetTableAlias q a k b = (t, b')"
  shows "fst ` set (bindings b') = insert (a, k) (fst ` set (bindings b))"
proof (cases "contains (mentioned_alias b a) k")
  case True
  then have "(a, k) \<in> fst ` set (bindings b)" by (simp add: keys_bindings contains_def)
  with True assms show ?thesis by (auto simp: GetTableAlias_old)
next
  case False
  have "set (bindings (b\<lparr> alias_index := i,
       mentioned_alias := (mentioned_alias b)(a := mentioned_alias b a @ [(k, v)]) \<rparr>))
      = insert ((a, k), v) (set (bindings b))" for i v
    using bindings_snoc [where b = b and i = i and a = a and k = k and v = v]
    by (metis set_mset_add_mset_insert set_mset_mset)
  with False assms show ?thesis by (auto simp: GetTableAlias_new)
qed

lemma column_cases:
  assumes "VisitResolvedExpressionColumn q node b = Inr (t, b')"
  obtains c al where "concept_of node = Some c"
    and "GetTableAlias q (fst c) (snd c) b = (al, b')"
    and "t = reference_text q node al"
  using assms
  by (auto simp: VisitResolvedExpressionColumn_concept split: option.splits prod.splits)

lemma column_stable:
  assumes "VisitResolvedExpressionColumn q node b = Inr (t, b')"
    and "map_of (mentioned_alias b a) k = Some v"
  shows "map_of (mentioned_alias b' a) k = Some v"
  using assms by (elim column_cases) (rule GetTableAlias_stable)

lemma column_text:
  assumes "VisitResolvedExpressionColumn q node b = Inr (t, b')"
  shows "\<exists>a k v. concept_of node = Some (a, k) \<and> map_of (mentioned_alias b' a) k = Some v
           \<and> t = reference_text q node (q v)"
proof -
  from assms obtain c al where c: "concept_of node = Some c"
    and g: "GetTableAlias q (fst c) (snd c) b = (al, b')"
    and t: "t = reference_text q node al"
    by (rule column_cases)
  from GetTableAlias_bound [OF g] c t show ?thesis by (cases c) auto
qed

lemma column_keys:
  assumes "VisitResolvedExpressionColumn q node b = Inr (t, b')"
  shows "\<exists>c. concept_of node = Some c
           \<and> fst ` set (bindings b') = insert c (fst ` set (bindings b))"
proof -
  from assms obtain c al where c: "concept_of node = Some c"
    and g: "GetTableAlias q (fst c) (snd c) b = (al, b')"
    by (rule column_cases)
  from GetTableAlias_keys [OF g] c show ?thesis by simp
qed

lemma VisitColumns_Cons_cases:
  assumes "VisitColumns q (node # nodes) b = Inr (ts, b')"
  obtains t b1 ts' where "VisitResolvedExpressionColumn q node b = Inr (t, b1)"
    and "VisitColumns q nodes b1 = Inr (ts', b')" and "ts = t # ts'"
  using assms by (auto split: sum.splits prod.splits)

lemma VisitColumns_stable:
  "VisitColumns q nodes b = Inr (ts, b') \<Longrightarrow> map_of (mentioned_alias b a) k = Some v
     \<Longrightarrow> map_of (mentioned_alias b' a) k = Some v"
proof (induction nodes arbitrary: b ts)
  case Nil
  then show ?case by simp
next
  case (Cons node nodes)
  from Cons.prems(1) show ?case
  proof (rule VisitColumns_Cons_cases)
    fix t b1 ts'
    assume s: "VisitResolvedExpressionColumn q node b = Inr (t, b1)"
      and r: "VisitColumns q nodes b1 = Inr (ts', b')"
    from Cons.IH [OF r column_stable [OF s Cons.prems(2)]] show ?thesis .
  qed
qed

lemma VisitColumns_keys:
  "VisitColumns q nodes b = Inr (ts, b') \<Longrightarrow>
     fst ` set (bindings b') = fst ` set (bindings b) \<union> set (List.map_filter concept_of nodes)"
proof (induction nodes arbitrary: b ts)
  case Nil
  then show ?case by (simp add: List.map_filter_simps)
next
  case (Cons node nodes)
  from Cons.prems(1) show ?case
  proof (rule VisitColumns_Cons_cases)
    fix t b1 ts'
    assume s: "VisitResolvedExpressionColumn q node b = Inr (t, b1)"
      and r: "VisitColumns q nodes b1 = Inr (ts', b')"
    from column_keys [OF s] obtain c where c: "concept_of node = Some c"
      and k: "fst ` set (bindings b1) = insert c (fst ` set (bindings b))" by blast
    from Cons.IH [OF r] k c show ?thesis by (simp add: List.map_filter_simps)
  qed
qed

lemma VisitColumns_texts:
  "VisitColumns q nodes b = Inr (ts, b') \<Longrightarrow>
     length ts = length nodes
     \<and> (\<forall>i<length nodes. \<exists>a k v. concept_of (nodes ! i) = Some (a, k)
            \<and> map_of (mentioned_alias b' a) k = Some v
            \<and> ts ! i = reference_text q (nodes ! i) (q v))"
proof (induction nodes arbitrary: b ts)
  case Nil
  then show ?case by auto
next
  case (Cons node nodes)
  from Cons.prems(1) show ?case
  proof (rule VisitColumns_Cons_cases)
    fix t b1 ts'
    assume s: "VisitResolvedExpressionColumn q node b = Inr (t, b1)"
      and r: "VisitColumns q nodes b1 = Inr (ts', b')" and ts: "ts = t # ts'"
    from column_text [OF s] obtain a k v where
      c: "concept_of node = Some (a, k)" and m: "map_of (mentioned_alias b1 a) k = Some v"
      and t: "t = reference_text q node (q v)" by blast
    from VisitColumns_stable [OF r m] have m': "map_of (mentioned_alias b' a) k = Some v" .
    from Cons.IH [OF r] have len: "length ts' = length nodes"
      and rest: "\<And>i. i < length nodes \<Longrightarrow> \<exists>a k v. concept_of (nodes ! i) = Some (a, k)
            \<and> map_of (mentioned_alias b' a) k = Some v
            \<and> ts' ! i = reference_text q (nodes ! i) (q v)" by auto
    show ?thesis
    proof (intro conjI allI impI)
      show "length ts = length (node # nodes)" using len ts by simp
    next
      fix i assume "i < length (node # nodes)"
      then show "\<exists>a k v. concept_of ((node # nodes) ! i) = Some (a, k)
            \<and> map_of (mentioned_alias b' a) k = Some v
            \<and> ts ! i = reference_text q ((node # nodes) ! i) (q v)"
        using c m' t ts rest by (cases i) auto
    qed
  qed
qed

lemma VisitColumns_append:
  "VisitColumns q (xs @ ys) b =
     (case VisitColumns q xs b of
        Inl s \<Rightarrow> Inl s
      | Inr (ts, b') \<Rightarrow>
          (case VisitColumns q ys b' of
             Inl s \<Rightarrow> Inl s
           | Inr (ts', b'') \<Rightarrow> Inr (ts @ ts', b'')))"
  by (induction xs arbitrary: b) (auto split: sum.splits prod.splits)

lemma Visit_columns:
  "map_sum id snd (Visit q r e b) = map_sum id snd (VisitColumns q (columns e) b)"
  "map_sum id snd (VisitChildren q r es b)
     = map_sum id snd (VisitColumns q (concat (map columns es)) b)"
proof (induction q r e b and q r es b rule: Visit_VisitChildren.induct)
  case (1 q render node b)
  then show ?case by (auto split: sum.splits prod.splits)
next
  case (2 q render tag args b)
  then show ?case by (auto split: sum.splits prod.splits)
next
  case (3 q render b)
  then show ?case by simp
next
  case (4 q render e es b)
  show ?case
  proof (cases "Visit q render e b")
    case (Inl s)
    with "4.IH"(1) have "VisitColumns q (columns e) b = Inl s"
      by (cases "VisitColumns q (columns e) b") auto
    with Inl show ?thesis by (simp add: VisitColumns_append)
  next
    case (Inr p)
    obtain w b1 where p: "p = (w, b1)" by (cases p)
    from "4.IH"(1) Inr p obtain ts where c: "VisitColumns q (columns e) b = Inr (ts, b1)"
      by (cases "VisitColumns q (columns e) b") auto
    from "4.IH"(2) [OF Inr p [symmetric]]
    have ih: "map_sum id snd (VisitChildren q render es b1)
      = map_sum id snd (VisitColumns q (concat (map columns es)) b1)" .
    show ?thesis
    proof (cases "VisitChildren q render es b1")
      case l: (Inl s)
      with ih have "VisitColumns q (concat (map columns es)) b1 = Inl s"
        by (cases "VisitColumns q (concat (map columns es)) b1") auto
      with l Inr p c show ?thesis by (simp add: VisitColumns_append)
    next
      case r: (Inr p')
      obtain texts b2 where p': "p' = (texts, b2)" by (cases p')
      from ih r p' obtain ts' where
        "VisitColumns q (concat (map columns es)) b1 = Inr (ts', b2)"
        by (cases "VisitColumns q (concat (map columns es)) b1") auto
      with r p' Inr p c show ?thesis by (simp add: VisitColumns_append)
    qed
  qed
qed

lemmas substitute_simps =
  Substitute_def ascii_isdigit_def BoolToString_def
  kTypeJoinTable_def kContextJoinTableViaAttribution_def kContextJoinTableViaAssociation_def
  kParentContextJoinTableViaParentContext_def kChildContextJoinTableViaParentContext_def
  kArtifactPropertyJoinTable_def kExecutionPropertyJoinTable_def kContextPropertyJoinTable_def
  kArtifactEventJoinTable_def kExecutionEventJoinTable_def

lemma GetTypeJoinTable_text:
  "GetTypeJoinTable enum_value T base_alias type_alias = raw_lines
     ['''',
      ''JOIN ('',
      ''  SELECT Type.id as type_id, Type.name as type'',
      ''  FROM Type'',
      ''  WHERE Type.type_kind = '' @ IntToString (GetTypeKindValue enum_value T),
      '') AS '' @ type_alias @ '' ON '' @ base_alias @ ''.type_id = '' @ type_alias
         @ ''.type_id '']"
  by (simp add: GetTypeJoinTable_def substitute_simps)

lemma GetContextJoinTable_Artifact:
  "GetContextJoinTable Artifact base_alias context_alias = raw_lines
       ['''',
        ''JOIN ('',
        ''  SELECT Context.id, Context.name,'',
        ''         Type.name as type,'',
        ''         Attribution.artifact_id,'',
        ''         Context.create_time_since_epoch,'',
        ''         Context.last_update_time_since_epoch'',
        ''  FROM Context'',
        ''       JOIN Type ON Context.type_id = Type.id'',
        ''       JOIN Attribution ON Context.id = Attribution.context_id'',
        '') AS '' @ context_alias @ '' ON '' @ base_alias @ ''.id = ''
           @ context_alias @ ''.artifact_id '']"
  by (simp add: GetContextJoinTable_def substitute_simps)

lemma GetContextJoinTable_Execution:
  "GetContextJoinTable Execution base_alias context_alias = raw_lines
       ['''',
        ''JOIN ('',
        ''  SELECT Context.id, Context.name,'',
        ''         Type.name as type,'',
        ''         Association.execution_id,'',
        ''         Context.create_time_since_epoch,'',
        ''         Context.last_update_time_since_epoch'',
        '''',
        ''  FROM Context'',
        ''       JOIN Type ON Context.type_id = Type.id'',
        ''       JOIN Association ON Context.id = Association.context_id'',
        '') AS '' @ context_alias @ '' ON '' @ base_alias @ ''.id = ''
           @ context_alias @ ''.execution_id '']"
  by (simp add: GetContextJoinTable_def substitute_simps)

lemma GetContextJoinTable_Context: "GetContextJoinTable Context base_alias context_alias = []"
  by (simp add: GetContextJoinTable_def Substitute_def)

lemma GetParentContextJoinTable_text:
  "GetParentContextJoinTable T base_alias al = raw_lines
       ['''',
        ''JOIN ('',
        ''  SELECT Context.name,'',
        ''         Type.name as type,'',
        ''         ParentContext.context_id as child_context_id'',
        ''  FROM Context'',
        ''       JOIN Type ON Context.type_id = Type.id'',
        ''       JOIN ParentContext ON Context.id = ParentContext.parent_context_id'',
        '') AS '' @ al @ '' ON '' @ base_alias @ ''.id = '' @ al @ ''.child_context_id '']"
  by (simp add: GetParentContextJoinTable_def substitute_simps)

lemma GetChildContextJoinTable_text:
  "GetChildContextJoinTable T base_alias al = raw_lines
       ['''',
        ''JOIN ('',
        ''  SELECT Context.name,'',
        ''         Type.name as type,'',
        ''         ParentContext.parent_context_id as parent_context_id'',
        ''  FROM Context'',
        ''       JOIN Type ON Context.type_id = Type.id'',
        ''       JOIN ParentContext ON Context.id = ParentContext.context_id'',
        '') AS '' @ al @ '' ON '' @ base_alias @ ''.id = '' @ al @ ''.parent_context_id '']"
  by (simp add: GetChildContextJoinTable_def substitute_simps)

lemma GetPropertyJoinTableImpl_text:
  "GetPropertyJoinTableImpl T base_alias al property_name is_custom = raw_lines
       ['''',
        ''JOIN ('',
        ''  SELECT '' @ (case T of Artifact \<Rightarrow> ''artifact_id'' | Execution \<Rightarrow> ''execution_id''
                        | Context \<Rightarrow> ''context_id'')
           @ '', int_value, double_value, string_value'',
        ''  FROM '' @ (case T of Artifact \<Rightarrow> ''ArtifactProperty''
                        | Execution \<Rightarrow> ''ExecutionProperty'' | Context \<Rightarrow> ''ContextProperty'')
           @ '' WHERE name = '' @ [CHR 0x22] @ property_name @ [CHR 0x22]
           @ '' AND is_custom_property = '' @ BoolToString is_custom,
        '') AS '' @ al @ '' ON '' @ base_alias @ ''.id = '' @ al @ ''.''
           @ (case T of Artifact \<Rightarrow> ''artifact_id'' | Execution \<Rightarrow> ''execution_id''
                | Context \<Rightarrow> ''context_id'') @ '' '']"
  by (cases T) (simp_all add: substitute_simps)

lemma GetEventJoinTable_Artifact:
  "GetEventJoinTable Artifact base_alias al = raw_lines
     ['''', ''JOIN Event AS '' @ al @ '' ON '' @ base_alias @ ''.id = '' @ al @ ''.artifact_id '']"
  by (simp add: GetEventJoinTable_def substitute_simps)

lemma GetEventJoinTable_Execution:
  "GetEventJoinTable Execution base_alias al = raw_lines
     ['''', ''JOIN Event AS '' @ al @ '' ON '' @ base_alias @ ''.id = '' @ al @ ''.execution_id '']"
  by (simp add: GetEventJoinTable_def substitute_simps)

lemma GetEventJoinTable_Context: "GetEventJoinTable Context base_alias al = []"
  by (simp add: GetEventJoinTable_def Substitute_def)

lemma foldl_append_fragments:
  "foldl (\<lambda>result x. result @ f x) result xs = result @ concat (map f xs)"
  by (induction xs arbitrary: result) simp_all

lemma AppendPropertyJoins_ok:
  "\<forall>kv\<in>set xs. length ''properties_'' \<le> length (fst kv) \<Longrightarrow>
     AppendPropertyJoins T base_alias xs result =
       Inr (result @ concat (map (\<lambda>kv. GetPropertyJoinTable T base_alias (snd kv)
              (drop (length ''properties_'') (fst kv))) xs))"
  by (induction xs arbitrary: result) (simp_all add: substr_def)

lemma AppendCustomPropertyJoins_ok:
  "\<forall>kv\<in>set xs. length ''custom_properties_'' \<le> length (fst kv) \<Longrightarrow>
     AppendCustomPropertyJoins T base_alias xs result =
       Inr (result @ concat (map (\<lambda>kv. GetCustomPropertyJoinTable T base_alias (snd kv)
              (drop (length ''custom_properties_'') (fst kv))) xs))"
  by (induction xs arbitrary: result) (simp_all add: substr_def)

lemma GetFromClause_fragments:
  assumes "\<forall>kv\<in>set (mentioned_alias b PROPERTY). length ''properties_'' \<le> length (fst kv)"
    and "\<forall>kv\<in>set (mentioned_alias b CUSTOM_PROPERTY).
           length ''custom_properties_'' \<le> length (fst kv)"
  shows "GetFromClause enum_value T b = Inr (concat (map snd (FromFragments enum_value T b)))"
  unfolding GetFromClause_def FromFragments_def Let_def foldl_append_fragments
    AppendPropertyJoins_ok [OF assms(1)] AppendCustomPropertyJoins_ok [OF assms(2)]
  by (simp add: comp_def)

lemma registry_ok_keys:
  assumes "registry_ok kB i0 b" and "kv \<in> set (mentioned_alias b a)"
  shows "key_ok (a, fst kv)"
proof -
  from assms(2) have "((a, fst kv), snd kv) \<in> set (bindings b)" by (simp add: in_bindings)
  then have "(a, fst kv) \<in> set (map fst (bindings b))" by force
  with assms(1) show ?thesis unfolding registry_ok_def list_all_iff by blast
qed

lemma registry_ok_distinct:
  assumes "registry_ok kB i0 b"
  shows "distinct (map fst (mentioned_alias b a))"
proof -
  from assms have d: "distinct (map fst (bindings b))" unfolding registry_ok_def by blast
  have inj: "inj_on (\<lambda>k. (a, k)) A" for A :: "string set" by (simp add: inj_on_def)
  have "distinct (map (\<lambda>kv. (a, fst kv)) (mentioned_alias b a))"
    using d by (cases a) (simp_all add: bindings_unfold comp_def)
  then have "distinct (map (\<lambda>k. (a, k)) (map fst (mentioned_alias b a)))"
    by (simp add: comp_def)
  then show ?thesis by (simp only: distinct_map) 
qed

lemma registry_ok_property_keys:
  assumes "registry_ok kB i0 b"
  shows "\<forall>kv\<in>set (mentioned_alias b PROPERTY). StartsWith (fst kv) ''properties_''"
    and "\<forall>kv\<in>set (mentioned_alias b CUSTOM_PROPERTY). StartsWith (fst kv) ''custom_properties_''"
  using registry_ok_keys [OF assms] by fastforce+

lemma StartsWith_length: "StartsWith s p \<Longrightarrow> length p \<le> length s"
  by (simp add: StartsWith_def prefix_length_le)

lemma registry_ok_GetFromClause:
  assumes "registry_ok kB i0 b"
  shows "GetFromClause enum_value T b = Inr (concat (map snd (FromFragments enum_value T b)))"
  by (rule GetFromClause_fragments)
    (use registry_ok_property_keys [OF assms] StartsWith_length in blast)+

lemma attribute_shape:
  assumes "registry_ok kB i0 b"
  shows "mentioned_alias b ATTRIBUTE = [(kBaseTableRef, kB)]
       \<or> (\<exists>t. mentioned_alias b ATTRIBUTE = [(kBaseTableRef, kB), (kTypeTableRef, t)])"
proof -
  from assms obtain rest where h: "mentioned_alias b ATTRIBUTE = (kBaseTableRef, kB) # rest"
    unfolding registry_ok_def by blast
  from registry_ok_distinct [OF assms, of ATTRIBUTE] h
  have d: "kBaseTableRef \<notin> fst ` set rest" "distinct (map fst rest)" by simp_all
  have k: "\<And>kv. kv \<in> set rest \<Longrightarrow> fst kv = kTypeTableRef"
  proof -
    fix kv assume kv: "kv \<in> set rest"
    with h have "kv \<in> set (mentioned_alias b ATTRIBUTE)" by simp
    from registry_ok_keys [OF assms this] have "fst kv = kBaseTableRef \<or> fst kv = kTypeTableRef"
      by simp
    with kv d(1) show "fst kv = kTypeTableRef" by force
  qed
  show ?thesis
  proof (cases rest)
    case Nil
    with h show ?thesis by simp
  next
    case (Cons x xs)
    have "xs = []"
    proof (cases xs)
      case Nil
      then show ?thesis .
    next
      case (Cons y ys)
      with \<open>rest = x # xs\<close> k [of x] k [of y] d(2) show ?thesis by simp
    qed
    with Cons k [of x] h show ?thesis by (cases x) auto
  qed
qed

lemma Visit_Inr_columns:
  assumes "Visit q r e b = Inr (w, b')"
  obtains ts where "VisitColumns q (columns e) b = Inr (ts, b')"
  using Visit_columns(1) [of q r e b] assms
  by (cases "VisitColumns q (columns e) b") auto

lemma Visit_Inl_columns:
  "Visit q r e b = Inl s \<longleftrightarrow> VisitColumns q (columns e) b = Inl s"
  using Visit_columns(1) [of q r e b]
  by (cases "VisitColumns q (columns e) b"; cases "Visit q r e b") auto

subsection \<open>Fragments and bindings\<close>

lemma FromFragments_bindings:
  assumes "registry_ok kB i0 b"
  shows "FromFragments enum_value T b
       = map (\<lambda>x. (fst x, JoinFragment enum_value T kB (fst x) (snd x))) (bindings b)"
  using attribute_shape [OF assms]
  by (auto simp: FromFragments_def Let_def bindings_unfold contains_def comp_def subscript_def
      kBaseTableRef_def kTypeTableRef_def)

lemma filter_key_singleton:
  "distinct (map fst xs) \<Longrightarrow> (c, v) \<in> set xs \<Longrightarrow> filter (\<lambda>x. fst x = c) xs = [(c, v)]"
proof (induction xs)
  case Nil
  then show ?case by simp
next
  case (Cons x xs)
  show ?case
  proof (cases "fst x = c")
    case True
    with Cons.prems(1) have notin: "c \<notin> fst ` set xs" by auto
    then have "(c, v) \<notin> set xs" by force
    with Cons.prems(2) have "x = (c, v)" by simp
    moreover from notin have "filter (\<lambda>x. fst x = c) xs = []"
      by (force simp: filter_empty_conv)
    ultimately show ?thesis by simp
  next
    case False
    with Cons show ?thesis by auto
  qed
qed

lemma JoinFragment_nonempty:
  assumes "\<not> (T = Context \<and> (fst c = CONTEXT \<or> fst c = EVENT))"
  shows "JoinFragment enum_value T base_alias c al \<noteq> []"
proof (cases c)
  case (Pair a k)
  show ?thesis
  proof (cases a)
    case ATTRIBUTE
    with Pair show ?thesis
      by (cases T) (simp_all add: GetTypeJoinTable_text)
  next
    case CONTEXT
    with Pair assms show ?thesis
      by (cases T) (simp_all add: GetContextJoinTable_Artifact GetContextJoinTable_Execution)
  next
    case PROPERTY
    with Pair show ?thesis
      by (simp add: GetPropertyJoinTable_def GetPropertyJoinTableImpl_text)
  next
    case CUSTOM_PROPERTY
    with Pair show ?thesis
      by (simp add: GetCustomPropertyJoinTable_def GetPropertyJoinTableImpl_text)
  next
    case PARENT_CONTEXT
    with Pair show ?thesis by (simp add: GetParentContextJoinTable_text)
  next
    case CHILD_CONTEXT
    with Pair show ?thesis by (simp add: GetChildContextJoinTable_text)
  next
    case EVENT
    with Pair assms show ?thesis
      by (cases T) (simp_all add: GetEventJoinTable_Artifact GetEventJoinTable_Execution)
  qed
qed

lemma JoinFragment_empty:
  "fst c = CONTEXT \<or> fst c = EVENT \<Longrightarrow> JoinFragment enum_value Context base_alias c al = []"
  by (cases c) (auto simp: GetContextJoinTable_Context GetEventJoinTable_Context)

subsection \<open>Success and failure of a walk\<close>

lemma column_Inl:
  "VisitResolvedExpressionColumn q node b = Inl s \<longleftrightarrow>
     concept_of node = None \<and> s = UnimplementedError
       ''context-executions and context-artifacts are not supported yet in filtering predicate.''"
  by (auto simp: VisitResolvedExpressionColumn_concept split: option.splits prod.splits)

lemma VisitColumns_Inl:
  "VisitColumns q nodes b = Inl s \<Longrightarrow>
     s = UnimplementedError
       ''context-executions and context-artifacts are not supported yet in filtering predicate.''"
  by (induction nodes arbitrary: b) (auto simp: column_Inl split: sum.splits prod.splits)

lemma VisitColumns_unrecognized:
  "node \<in> set nodes \<Longrightarrow> concept_of node = None \<Longrightarrow> \<exists>s. VisitColumns q nodes b = Inl s"
proof (induction nodes arbitrary: b)
  case Nil
  then show ?case by simp
next
  case (Cons x xs)
  show ?case
  proof (cases "VisitResolvedExpressionColumn q x b")
    case (Inl s)
    then show ?thesis by simp
  next
    case (Inr p)
    then have "concept_of x \<noteq> None"
      by (auto simp: VisitResolvedExpressionColumn_concept split: option.splits)
    with Cons.prems have mem: "node \<in> set xs" by auto
    obtain t b1 where p: "p = (t, b1)" by (cases p)
    from Cons.IH [OF mem Cons.prems(2), of b1] obtain s where "VisitColumns q xs b1 = Inl s" ..
    with Inr p show ?thesis by simp
  qed
qed

lemma VisitColumns_total:
  "\<forall>node\<in>set nodes. concept_of node \<noteq> None \<Longrightarrow> \<exists>ts b'. VisitColumns q nodes b = Inr (ts, b')"
proof (induction nodes arbitrary: b)
  case Nil
  then show ?case by simp
next
  case (Cons x xs)
  then obtain c where "concept_of x = Some c" by auto
  then obtain t b1 where s: "VisitResolvedExpressionColumn q x b = Inr (t, b1)"
    by (cases "GetTableAlias q (fst c) (snd c) b")
      (auto simp: VisitResolvedExpressionColumn_concept)
  from Cons.IH [of b1] Cons.prems obtain ts b' where "VisitColumns q xs b1 = Inr (ts, b')"
    by auto
  with s show ?case by simp
qed

lemma Visit_total:
  assumes "\<forall>node\<in>set (columns e). concept_of node \<noteq> None"
  shows "\<exists>w b'. Visit q r e b = Inr (w, b')"
proof (cases "Visit q r e b")
  case (Inl s)
  then have "VisitColumns q (columns e) b = Inl s" by (simp add: Visit_Inl_columns)
  with VisitColumns_total [OF assms, of q b] show ?thesis by auto
next
  case (Inr p)
  then show ?thesis by (cases p) auto
qed

lemma fragment_of_concept:
  assumes "registry_ok kB i0 b" and "(c, al) \<in> set (bindings b)"
  shows "filter (\<lambda>f. fst f = c) (FromFragments enum_value T b)
       = [(c, JoinFragment enum_value T kB c al)]"
proof -
  from assms(1) have d: "distinct (map fst (bindings b))" unfolding registry_ok_def by blast
  have "filter (\<lambda>f. fst f = c) (FromFragments enum_value T b)
      = map (\<lambda>x. (fst x, JoinFragment enum_value T kB (fst x) (snd x)))
          (filter (\<lambda>x. fst x = c) (bindings b))"
    by (simp add: FromFragments_bindings [OF assms(1)] filter_map comp_def)
  also have "\<dots> = [(c, JoinFragment enum_value T kB c al)]"
    by (simp add: filter_key_singleton [OF d assms(2)])
  finally show ?thesis .
qed

lemma visited_concept_bound:
  assumes "VisitColumns q nodes b0 = Inr (ts, b)" and "node \<in> set nodes"
  shows "\<exists>c al. concept_of node = Some c \<and> (c, al) \<in> set (bindings b)
           \<and> map_of (mentioned_alias b (fst c)) (snd c) = Some al"
proof -
  from assms(2) obtain i where i: "i < length nodes" "nodes ! i = node"
    by (auto simp: in_set_conv_nth)
  from VisitColumns_texts [OF assms(1)] i obtain a k v where
    c: "concept_of node = Some (a, k)" and m: "map_of (mentioned_alias b a) k = Some v"
    by blast
  from m have "(k, v) \<in> set (mentioned_alias b a)" by (rule map_of_SomeD)
  then have "((a, k), v) \<in> set (bindings b)" by (simp add: in_bindings)
  with c m show ?thesis by auto
qed

lemma registry_ok_Visit:
  assumes "Visit q r e (FilterQueryBuilder_ctor kB i0) = Inr (w, b)"
  shows "registry_ok kB i0 b"
proof -
  from assms obtain ts where "VisitColumns q (columns e) (FilterQueryBuilder_ctor kB i0) = Inr (ts, b)"
    by (rule Visit_Inr_columns)
  from registry_ok_VisitColumns [OF registry_ok_ctor this] show ?thesis .
qed


lemma StartsWith_custom_properties:
  "StartsWith n ''custom_properties_'' \<Longrightarrow>
     \<not> StartsWith n ''contexts_'' \<and> \<not> StartsWith n ''properties_''"
  by (auto simp: StartsWith_def prefix_def)

subsection \<open>Running the builder on a concrete input\<close>

lemmas run_simps =
  VisitResolvedExpressionColumn_def StartsWith_def GetTableAlias_def contains_def assign_def
  subscript_def FilterQueryBuilder_ctor_def kBaseTableRef_def kTypeTableRef_def
  kTableAliasPrefix_def decimal_digits render_call_def

lemmas from_simps =
  GetFromClause_def contains_def subscript_def kBaseTableRef_def kTypeTableRef_def substr_def
  GetContextJoinTable_Context GetEventJoinTable_Context

subsection \<open>The aliases of a registry\<close>

lemma generated_aliases_distinct:
  assumes "registry_ok kB i0 b"
  shows "distinct (map snd (tl (bindings b)))"
proof -
  from assms have m: "mset (map snd (tl (bindings b)))
      = mset (map TableAlias [Suc i0 ..< Suc (alias_index b)])"
    unfolding registry_ok_def by blast
  have "distinct (map TableAlias [Suc i0 ..< Suc (alias_index b)])"
    by (simp add: distinct_map inj_on_def TableAlias_inj)
  with mset_eq_imp_distinct_iff [OF m] show ?thesis by simp
qed

lemma generated_aliases_set:
  assumes "registry_ok kB i0 b"
  shows "set (map snd (tl (bindings b))) = TableAlias ` {i0 <.. alias_index b}"
proof -
  from assms have m: "mset (map snd (tl (bindings b)))
      = mset (map TableAlias [Suc i0 ..< Suc (alias_index b)])"
    unfolding registry_ok_def by blast
  have "set [Suc i0 ..< Suc (alias_index b)] = {i0 <.. alias_index b}"
    unfolding set_upt by auto
  with mset_eq_setD [OF m] show ?thesis by (simp only: set_map)
qed

lemma registry_ok_base:
  assumes "registry_ok kB i0 b"
  shows "bindings b = ((ATTRIBUTE, kBaseTableRef), kB) # tl (bindings b)"
    and "map_of (mentioned_alias b ATTRIBUTE) kBaseTableRef = Some kB"
    and "contains (mentioned_alias b ATTRIBUTE) kBaseTableRef"
    and "subscript (mentioned_alias b ATTRIBUTE) kBaseTableRef = kB"
proof -
  from assms obtain rest where h: "mentioned_alias b ATTRIBUTE = (kBaseTableRef, kB) # rest"
    unfolding registry_ok_def by blast
  show "bindings b = ((ATTRIBUTE, kBaseTableRef), kB) # tl (bindings b)"
    by (rule bindings_head [OF h])
  show "map_of (mentioned_alias b ATTRIBUTE) kBaseTableRef = Some kB" using h by simp
  show "contains (mentioned_alias b ATTRIBUTE) kBaseTableRef" using h by (simp add: contains_def)
  show "subscript (mentioned_alias b ATTRIBUTE) kBaseTableRef = kB"
    using h by (simp add: subscript_def)
qed

lemma binding_in_tail:
  assumes "registry_ok kB i0 b" and "(c, al) \<in> set (bindings b)"
    and "c \<noteq> (ATTRIBUTE, kBaseTableRef)"
  shows "(c, al) \<in> set (tl (bindings b))"
proof -
  from assms(2) have "(c, al) \<in> set (((ATTRIBUTE, kBaseTableRef), kB) # tl (bindings b))"
    using registry_ok_base(1) [OF assms(1)] by simp
  with assms(3) show ?thesis by simp
qed

lemma binding_alias_inj:
  assumes "registry_ok kB i0 b"
    and "(c, al) \<in> set (bindings b)" and "(c', al) \<in> set (bindings b)"
    and "c \<noteq> (ATTRIBUTE, kBaseTableRef)" and "c' \<noteq> (ATTRIBUTE, kBaseTableRef)"
  shows "c = c'"
proof -
  from generated_aliases_distinct [OF assms(1)]
  have inj: "inj_on snd (set (tl (bindings b)))" by (simp add: distinct_map)
  have "snd (c, al) = snd (c', al)" by simp
  from inj_onD [OF inj this binding_in_tail [OF assms(1,2,4)] binding_in_tail [OF assms(1,3,5)]]
  show ?thesis by simp
qed

lemma binding_singleton:
  assumes "registry_ok kB i0 b" and "map_of (mentioned_alias b a) k = Some al"
  shows "filter (\<lambda>kv. fst kv = k) (mentioned_alias b a) = [(k, al)]"
  by (rule filter_key_singleton [OF registry_ok_distinct [OF assms(1)] map_of_SomeD [OF assms(2)]])

lemma StartsWith_properties:
  "StartsWith n ''properties_'' \<Longrightarrow> \<not> StartsWith n ''contexts_''"
  by (auto simp: StartsWith_def prefix_def)

subsection \<open>Alias numbering\<close>

lemma GetTableAlias_mint:
  assumes "GetTableAlias q a k b = (t, b')" and "(a, k) \<notin> fst ` set (bindings b)"
  shows "alias_index b' = Suc (alias_index b)"
    and "map_of (mentioned_alias b' a) k = Some (TableAlias (Suc (alias_index b)))"
proof -
  from assms(2) have new: "\<not> contains (mentioned_alias b a) k"
    by (simp add: keys_bindings contains_def)
  then have none: "map_of (mentioned_alias b a) k = None"
    by (simp add: contains_def map_of_eq_None_iff)
  from assms(1) new show "alias_index b' = Suc (alias_index b)"
    by (auto simp: GetTableAlias_new)
  from assms(1) new none
  show "map_of (mentioned_alias b' a) k = Some (TableAlias (Suc (alias_index b)))"
    by (auto simp: GetTableAlias_new map_add_def)
qed

lemma GetTableAlias_known:
  assumes "GetTableAlias q a k b = (t, b')" and "(a, k) \<in> fst ` set (bindings b)"
  shows "b' = b"
  using assms by (simp add: keys_bindings contains_def GetTableAlias_old)

lemma first_mentions_numbering:
  "VisitColumns q nodes b = Inr (ts, b') \<Longrightarrow> set seen = fst ` set (bindings b) \<Longrightarrow>
     alias_index b' = alias_index b + length (first_mentions seen nodes)
     \<and> (\<forall>j<length (first_mentions seen nodes).
          map_of (mentioned_alias b' (fst (first_mentions seen nodes ! j)))
                 (snd (first_mentions seen nodes ! j))
            = Some (TableAlias (alias_index b + 1 + j)))
     \<and> fst ` set (bindings b') = set seen \<union> set (first_mentions seen nodes)"
proof (induction nodes arbitrary: b ts seen)
  case Nil
  then show ?case by simp
next
  case (Cons node nodes)
  from Cons.prems(1) show ?case
  proof (rule VisitColumns_Cons_cases)
    fix t b1 ts'
    assume s: "VisitResolvedExpressionColumn q node b = Inr (t, b1)"
      and r: "VisitColumns q nodes b1 = Inr (ts', b')"
    from s obtain c al where c: "concept_of node = Some c"
      and g: "GetTableAlias q (fst c) (snd c) b = (al, b1)"
      by (rule column_cases)
    show ?thesis
    proof (cases "c \<in> set seen")
      case True
      with Cons.prems(2) have "(fst c, snd c) \<in> fst ` set (bindings b)" by simp
      from GetTableAlias_known [OF g this] have "b1 = b" .
      with Cons.IH [OF r, of seen] Cons.prems(2) c True show ?thesis by simp
    next
      case False
      with Cons.prems(2) have new: "(fst c, snd c) \<notin> fst ` set (bindings b)" by simp
      let ?fm = "first_mentions (c # seen) nodes"
      have fm: "first_mentions seen (node # nodes) = c # ?fm" using c False by simp
      have seen': "set (c # seen) = fst ` set (bindings b1)"
        using GetTableAlias_keys [OF g] Cons.prems(2) by simp
      from Cons.IH [OF r seen']
      have idx: "alias_index b' = alias_index b1 + length ?fm"
        and num: "\<And>j. j < length ?fm \<Longrightarrow>
          map_of (mentioned_alias b' (fst (?fm ! j))) (snd (?fm ! j))
            = Some (TableAlias (alias_index b1 + 1 + j))"
        and keys: "fst ` set (bindings b') = set (c # seen) \<union> set ?fm"
        by blast+
      from GetTableAlias_mint [OF g new]
      have i1: "alias_index b1 = Suc (alias_index b)"
        and m1: "map_of (mentioned_alias b1 (fst c)) (snd c)
                   = Some (TableAlias (Suc (alias_index b)))" .
      from VisitColumns_stable [OF r m1]
      have m': "map_of (mentioned_alias b' (fst c)) (snd c)
                   = Some (TableAlias (Suc (alias_index b)))" .
      have "map_of (mentioned_alias b' (fst ((c # ?fm) ! j))) (snd ((c # ?fm) ! j))
            = Some (TableAlias (alias_index b + 1 + j))" if "j < length (c # ?fm)" for j
      proof (cases j)
        case 0
        with m' show ?thesis by simp
      next
        case (Suc j')
        with that have "j' < length ?fm" by simp
        from num [OF this] i1 Suc show ?thesis by simp
      qed
      with idx i1 keys show ?thesis unfolding fm by auto
    qed
  qed
qed

subsection \<open>Counting the bindings\<close>

lemma walk_keys:
  assumes "VisitColumns q nodes (FilterQueryBuilder_ctor kB i0) = Inr (ts, b)"
  shows "fst ` set (bindings b) = insert (ATTRIBUTE, kBaseTableRef) (mentioned_concepts nodes)"
  using VisitColumns_keys [OF assms]
  by (auto simp: bindings_ctor mentioned_concepts_def)

lemma walk_count:
  assumes "VisitColumns q nodes (FilterQueryBuilder_ctor kB i0) = Inr (ts, b)"
  shows "length (bindings b) = card (mentioned_concepts nodes) + 1"
    and "alias_index b = i0 + card (mentioned_concepts nodes)"
proof -
  from registry_ok_VisitColumns [OF registry_ok_ctor assms]
  have ok: "registry_ok kB i0 b" .
  then have d: "distinct (map fst (bindings b))" and le: "i0 \<le> alias_index b"
    and m: "mset (map snd (tl (bindings b)))
              = mset (map TableAlias [Suc i0 ..< Suc (alias_index b)])"
    unfolding registry_ok_def by blast+
  have fin: "finite (mentioned_concepts nodes)" by (simp add: mentioned_concepts_def)
  have notin: "(ATTRIBUTE, kBaseTableRef) \<notin> mentioned_concepts nodes"
    by (simp add: mentioned_concepts_def)
  have "length (bindings b) = card (set (map fst (bindings b)))"
    using distinct_card [OF d] by simp
  also have "\<dots> = card (insert (ATTRIBUTE, kBaseTableRef) (mentioned_concepts nodes))"
    using walk_keys [OF assms] by simp
  also have "\<dots> = card (mentioned_concepts nodes) + 1"
    using fin notin by simp
  finally show len: "length (bindings b) = card (mentioned_concepts nodes) + 1" .
  from m have "size (mset (map snd (tl (bindings b))))
      = size (mset (map TableAlias [Suc i0 ..< Suc (alias_index b)]))" by simp
  then have "length (bindings b) - 1 = alias_index b - i0" by (simp del: upt_Suc)
  with len le show "alias_index b = i0 + card (mentioned_concepts nodes)" by simp
qed

lemma all_aliases_distinct:
  assumes "registry_ok kB i0 b" and "\<forall>n>i0. kB \<noteq> TableAlias n"
  shows "distinct (map snd (bindings b))"
proof -
  have "kB \<notin> set (map snd (tl (bindings b)))"
    using generated_aliases_set [OF assms(1)] assms(2) by auto
  with generated_aliases_distinct [OF assms(1)]
  have "distinct (map snd (((ATTRIBUTE, kBaseTableRef), kB) # tl (bindings b)))" by simp
  with registry_ok_base(1) [OF assms(1)] show ?thesis by simp
qed

lemma all_fragments_shown:
  assumes "registry_ok kB i0 b"
    and "T \<noteq> Context \<or> (mentioned_alias b CONTEXT = [] \<and> mentioned_alias b EVENT = [])"
  shows "TableFragments enum_value T b = FromFragments enum_value T b"
proof -
  have "snd f \<noteq> []" if "f \<in> set (FromFragments enum_value T b)" for f
  proof -
    from that obtain c al where f: "f = (c, JoinFragment enum_value T kB c al)"
      and mem: "(c, al) \<in> set (bindings b)"
      unfolding FromFragments_bindings [OF assms(1)] by auto
    from mem have "(snd c, al) \<in> set (mentioned_alias b (fst c))"
      by (cases c) (simp add: in_bindings)
    with assms(2) have "\<not> (T = Context \<and> (fst c = CONTEXT \<or> fst c = EVENT))" by auto
    from JoinFragment_nonempty [OF this] f show ?thesis by simp
  qed
  then show ?thesis unfolding TableFragments_def by (simp add: filter_id_conv)
qed

lemma TableAlias_0: "TableAlias 0 = ''table_0''"
  by (simp add: TableAlias_def kTableAliasPrefix_def decimal_digits)

lemma table_0_fresh: "\<forall>n>0. ''table_0'' \<noteq> TableAlias n"
  using TableAlias_inj [of 0] by (auto simp: TableAlias_0 [symmetric] simp del: TableAlias_0)

section \<open>The join templates of each record kind\<close>

text \<open>
  C6. The context join of an Artifact goes through Attribution and is joined on
  \<open>artifact_id\<close>; the context join of an Execution goes through Association and is joined
  on \<open>execution_id\<close>. Each kind takes its own template, and the two fragments differ
  whatever the aliases are.
\<close>

theorem context_join_per_record_kind:
  "GetContextJoinTemplate Artifact = kContextJoinTableViaAttribution
   \<and> GetContextJoinTemplate Execution = kContextJoinTableViaAssociation
   \<and> GetContextJoinTable Artifact base_alias context_alias = raw_lines
       ['''',
        ''JOIN ('',
        ''  SELECT Context.id, Context.name,'',
        ''         Type.name as type,'',
        ''         Attribution.artifact_id,'',
        ''         Context.create_time_since_epoch,'',
        ''         Context.last_update_time_since_epoch'',
        ''  FROM Context'',
        ''       JOIN Type ON Context.type_id = Type.id'',
        ''       JOIN Attribution ON Context.id = Attribution.context_id'',
        '') AS '' @ context_alias @ '' ON '' @ base_alias @ ''.id = ''
           @ context_alias @ ''.artifact_id '']
   \<and> GetContextJoinTable Execution base_alias context_alias = raw_lines
       ['''',
        ''JOIN ('',
        ''  SELECT Context.id, Context.name,'',
        ''         Type.name as type,'',
        ''         Association.execution_id,'',
        ''         Context.create_time_since_epoch,'',
        ''         Context.last_update_time_since_epoch'',
        '''',
        ''  FROM Context'',
        ''       JOIN Type ON Context.type_id = Type.id'',
        ''       JOIN Association ON Context.id = Association.context_id'',
        '') AS '' @ context_alias @ '' ON '' @ base_alias @ ''.id = ''
           @ context_alias @ ''.execution_id '']
   \<and> GetContextJoinTable Artifact base_alias context_alias
       \<noteq> GetContextJoinTable Execution base_alias' context_alias'"
  by (simp add: GetContextJoinTable_Artifact GetContextJoinTable_Execution)

text \<open>
  C7. The parent-context fragment selects the contexts that are the
  \<open>parent_context_id\<close> of a ParentContext row and is joined to the base row through that
  row's \<open>context_id\<close>, so the neighbours are the parents of the base row. The
  child-context fragment selects the contexts that are the \<open>context_id\<close> of a
  ParentContext row and is joined through that row's \<open>parent_context_id\<close>, so the
  neighbours are the children of the base row. The two fragments differ whatever the
  aliases are.
\<close>

theorem parent_child_context_join_orientation:
  "GetParentContextJoinTable Context base_alias al = raw_lines
       ['''',
        ''JOIN ('',
        ''  SELECT Context.name,'',
        ''         Type.name as type,'',
        ''         ParentContext.context_id as child_context_id'',
        ''  FROM Context'',
        ''       JOIN Type ON Context.type_id = Type.id'',
        ''       JOIN ParentContext ON Context.id = ParentContext.parent_context_id'',
        '') AS '' @ al @ '' ON '' @ base_alias @ ''.id = '' @ al @ ''.child_context_id '']
   \<and> GetChildContextJoinTable Context base_alias al = raw_lines
       ['''',
        ''JOIN ('',
        ''  SELECT Context.name,'',
        ''         Type.name as type,'',
        ''         ParentContext.parent_context_id as parent_context_id'',
        ''  FROM Context'',
        ''       JOIN Type ON Context.type_id = Type.id'',
        ''       JOIN ParentContext ON Context.id = ParentContext.context_id'',
        '') AS '' @ al @ '' ON '' @ base_alias @ ''.id = '' @ al @ ''.parent_context_id '']
   \<and> GetParentContextJoinTable Context base_alias al
       \<noteq> GetChildContextJoinTable Context base_alias' al'"
  by (simp add: GetParentContextJoinTable_text GetChildContextJoinTable_text)

section \<open>Errors\<close>

text \<open>
  C9. A struct-typed column reference whose name starts with none of the six
  relationship prefixes makes \<open>VisitResolvedExpressionColumn\<close> return the unimplemented
  status, and a tree that holds such a reference is not compiled: the walk and the
  compilation return that status, and neither a WHERE nor a FROM text.
\<close>

theorem unrecognized_prefix_aborts:
  assumes "IsStruct node"
    and "\<forall>p\<in>set [''contexts_'', ''properties_'', ''custom_properties_'',
                  ''parent_contexts_'', ''child_contexts_'', ''events_''].
           \<not> StartsWith (name node) p"
  shows "VisitResolvedExpressionColumn q node b = Inl (UnimplementedError
           ''context-executions and context-artifacts are not supported yet in filtering predicate.'')
       \<and> (node \<in> set (columns e) \<longrightarrow>
            Visit q render e b = Inl (UnimplementedError
              ''context-executions and context-artifacts are not supported yet in filtering predicate.'')
          \<and> Compile q render enum_value kB i0 T e = Inl (UnimplementedError
              ''context-executions and context-artifacts are not supported yet in filtering predicate.''))"
proof -
  from assms have none: "concept_of node = None" by (simp add: concept_of_def)
  then have col: "VisitResolvedExpressionColumn q node b = Inl (UnimplementedError
      ''context-executions and context-artifacts are not supported yet in filtering predicate.'')"
    by (simp add: VisitResolvedExpressionColumn_concept)
  have walk: "Visit q render e b' = Inl (UnimplementedError
      ''context-executions and context-artifacts are not supported yet in filtering predicate.'')"
    if "node \<in> set (columns e)" for b'
  proof -
    from VisitColumns_unrecognized [OF that none] obtain s
      where s: "VisitColumns q (columns e) b' = Inl s" ..
    from VisitColumns_Inl [OF s] s show ?thesis by (simp add: Visit_Inl_columns)
  qed
  from col walk show ?thesis by (simp add: Compile_def)
qed

theorem unrecognized_prefix_aborts_witness:
  "IsStruct (ResolvedExpressionColumn True ''artifacts_a'')
   \<and> \<not> StartsWith ''artifacts_a'' ''contexts_''
   \<and> \<not> StartsWith ''artifacts_a'' ''properties_''
   \<and> \<not> StartsWith ''artifacts_a'' ''custom_properties_''
   \<and> \<not> StartsWith ''artifacts_a'' ''parent_contexts_''
   \<and> \<not> StartsWith ''artifacts_a'' ''child_contexts_''
   \<and> \<not> StartsWith ''artifacts_a'' ''events_''
   \<and> VisitResolvedExpressionColumn id (ResolvedExpressionColumn True ''artifacts_a'')
        (FilterQueryBuilder_ctor ''table_0'' 0)
      = Inl (UnimplementedError
          ''context-executions and context-artifacts are not supported yet in filtering predicate.'')
   \<and> Compile id render_call sample_enum_value ''table_0'' 0 Artifact
        (Operator ''AND'' [Column (ResolvedExpressionColumn False ''uri''),
                          Column (ResolvedExpressionColumn True ''artifacts_a'')])
      = Inl (UnimplementedError
          ''context-executions and context-artifacts are not supported yet in filtering predicate.'')"
  using unrecognized_prefix_aborts [where node = "ResolvedExpressionColumn True ''artifacts_a''"
      and q = id and b = "FilterQueryBuilder_ctor ''table_0'' 0" and render = render_call
      and enum_value = sample_enum_value and kB = "''table_0''" and ?i0.0 = 0 and T = Artifact
      and e = "Operator ''AND'' [Column (ResolvedExpressionColumn False ''uri''),
                          Column (ResolvedExpressionColumn True ''artifacts_a'')]"]
  by (simp add: StartsWith_def)

text \<open>
  C10. After any tree has been walked from a fresh builder, every key of the PROPERTY map
  starts with \<open>properties_\<close> and every key of the CUSTOM_PROPERTY map with
  \<open>custom_properties_\<close>. So \<open>substr\<close> at the length of the prefix never throws on a
  stored key, and \<open>GetFromClause\<close> returns the concatenation of its fragments.
\<close>

theorem property_keys_keep_prefix:
  assumes "Visit q render e (FilterQueryBuilder_ctor kB i0) = Inr (w, b)"
  shows "(\<forall>kv\<in>set (mentioned_alias b PROPERTY).
            StartsWith (fst kv) ''properties_''
            \<and> substr (fst kv) (length ''properties_'')
                = Inr (drop (length ''properties_'') (fst kv)))
       \<and> (\<forall>kv\<in>set (mentioned_alias b CUSTOM_PROPERTY).
            StartsWith (fst kv) ''custom_properties_''
            \<and> substr (fst kv) (length ''custom_properties_'')
                = Inr (drop (length ''custom_properties_'') (fst kv)))
       \<and> GetFromClause enum_value T b
            = Inr (concat (map snd (FromFragments enum_value T b)))"
proof -
  from assms have ok: "registry_ok kB i0 b" by (rule registry_ok_Visit)
  have "substr k (length p) = Inr (drop (length p) k)" if "StartsWith k p" for k p
    using StartsWith_length [OF that] by (simp add: substr_def)
  with registry_ok_property_keys [OF ok] registry_ok_GetFromClause [OF ok]
  show ?thesis by blast
qed

theorem property_keys_keep_prefix_witness:
  "\<exists>w b. Visit id render_call
            (Operator ''AND'' [Column (ResolvedExpressionColumn True ''properties_p''),
                              Column (ResolvedExpressionColumn True ''custom_properties_c'')])
            (FilterQueryBuilder_ctor ''table_0'' 0) = Inr (w, b)
     \<and> mentioned_alias b PROPERTY = [(''properties_p'', ''table_1'')]
     \<and> mentioned_alias b CUSTOM_PROPERTY = [(''custom_properties_c'', ''table_2'')]
     \<and> (\<forall>kv\<in>set (mentioned_alias b PROPERTY).
            StartsWith (fst kv) ''properties_''
            \<and> substr (fst kv) (length ''properties_'')
                = Inr (drop (length ''properties_'') (fst kv)))
     \<and> (\<forall>kv\<in>set (mentioned_alias b CUSTOM_PROPERTY).
            StartsWith (fst kv) ''custom_properties_''
            \<and> substr (fst kv) (length ''custom_properties_'')
                = Inr (drop (length ''custom_properties_'') (fst kv)))
     \<and> GetFromClause sample_enum_value Artifact b
            = Inr (concat (map snd (FromFragments sample_enum_value Artifact b)))"
proof -
  have "\<exists>w b. Visit id render_call
            (Operator ''AND'' [Column (ResolvedExpressionColumn True ''properties_p''),
                              Column (ResolvedExpressionColumn True ''custom_properties_c'')])
            (FilterQueryBuilder_ctor ''table_0'' 0) = Inr (w, b)
     \<and> mentioned_alias b PROPERTY = [(''properties_p'', ''table_1'')]
     \<and> mentioned_alias b CUSTOM_PROPERTY = [(''custom_properties_c'', ''table_2'')]"
    by (simp add: run_simps)
  then obtain w b where v: "Visit id render_call
            (Operator ''AND'' [Column (ResolvedExpressionColumn True ''properties_p''),
                              Column (ResolvedExpressionColumn True ''custom_properties_c'')])
            (FilterQueryBuilder_ctor ''table_0'' 0) = Inr (w, b)"
    and m: "mentioned_alias b PROPERTY = [(''properties_p'', ''table_1'')]"
      "mentioned_alias b CUSTOM_PROPERTY = [(''custom_properties_c'', ''table_2'')]"
    by blast
  from property_keys_keep_prefix [OF v, of sample_enum_value Artifact] v m
  show ?thesis by blast
qed




section \<open>Concept keys\<close>

text \<open>
  C4 does not hold of the code: the binding of a \<open>properties_\<close> reference is registered
  under the whole name of the reference, prefix included, not under the name minus the
  prefix.
\<close>

theorem property_key_counterexample:
  "VisitResolvedExpressionColumn id (ResolvedExpressionColumn True ''properties_foo'')
     (FilterQueryBuilder_ctor ''table_0'' 0)
   = Inr (''table_1'',
          \<lparr> mentioned_alias = (mentioned_alias (FilterQueryBuilder_ctor ''table_0'' 0))
               (PROPERTY := [(''properties_foo'', ''table_1'')]),
            alias_index = 1 \<rparr>)
   \<and> \<not> contains [(''properties_foo'', ''table_1'')] ''foo''"
  by (simp add: run_simps)

text \<open>
  C4, amended. A struct-typed reference whose name starts with \<open>properties_\<close>
  (respectively \<open>custom_properties_\<close>) is bound in the PROPERTY (respectively
  CUSTOM_PROPERTY) map under its whole name, prefix included, exactly once. The prefix is
  stripped when the FROM clause is rendered: \<open>GetFromClause\<close> returns the concatenation
  of its fragments, the one fragment among them for the binding is the property join of
  the record kind, and its text filters on \<open>name = "..."\<close> with the name minus the prefix
  and on the custom flag of the map. Among the references of a tree with that prefix,
  those with the same name share the alias of the binding and those with another name
  are bound to another alias.
\<close>

theorem property_reference_binding:
  assumes "Visit q render e (FilterQueryBuilder_ctor kB i0) = Inr (w, b)"
    and "node \<in> set (columns e)"
    and "IsStruct node"
    and "(a = PROPERTY \<and> pfx = ''properties_'')
         \<or> (a = CUSTOM_PROPERTY \<and> pfx = ''custom_properties_'')"
    and "StartsWith (name node) pfx"
  shows "\<exists>al. filter (\<lambda>kv. fst kv = name node) (mentioned_alias b a) = [(name node, al)]
           \<and> filter (\<lambda>f. fst f = (a, name node)) (FromFragments enum_value T b)
               = [((a, name node),
                   GetPropertyJoinTableImpl T kB al (drop (length pfx) (name node))
                     (a = CUSTOM_PROPERTY))]
           \<and> GetPropertyJoinTableImpl T kB al (drop (length pfx) (name node))
                 (a = CUSTOM_PROPERTY)
               = raw_lines
                 ['''',
                  ''JOIN ('',
                  ''  SELECT ''
                    @ (case T of Artifact \<Rightarrow> ''artifact_id'' | Execution \<Rightarrow> ''execution_id''
                       | Context \<Rightarrow> ''context_id'')
                    @ '', int_value, double_value, string_value'',
                  ''  FROM ''
                    @ (case T of Artifact \<Rightarrow> ''ArtifactProperty''
                       | Execution \<Rightarrow> ''ExecutionProperty'' | Context \<Rightarrow> ''ContextProperty'')
                    @ '' WHERE name = '' @ [CHR 0x22] @ drop (length pfx) (name node)
                    @ [CHR 0x22] @ '' AND is_custom_property = ''
                    @ (if a = CUSTOM_PROPERTY then ''true'' else ''false''),
                  '') AS '' @ al @ '' ON '' @ kB @ ''.id = '' @ al @ ''.''
                    @ (case T of Artifact \<Rightarrow> ''artifact_id'' | Execution \<Rightarrow> ''execution_id''
                       | Context \<Rightarrow> ''context_id'') @ '' '']
           \<and> substr (name node) (length pfx) = Inr (drop (length pfx) (name node))
           \<and> GetFromClause enum_value T b
               = Inr (concat (map snd (FromFragments enum_value T b)))
           \<and> (\<forall>node'\<in>set (columns e). IsStruct node' \<and> StartsWith (name node') pfx \<longrightarrow>
                 (map_of (mentioned_alias b a) (name node') = Some al
                    \<longleftrightarrow> name node' = name node))"
proof -
  from assms(1) have ok: "registry_ok kB i0 b" by (rule registry_ok_Visit)
  from assms(1) obtain ts where
    walk: "VisitColumns q (columns e) (FilterQueryBuilder_ctor kB i0) = Inr (ts, b)"
    by (rule Visit_Inr_columns)
  have concept: "concept_of n = Some (a, name n)" if "IsStruct n" "StartsWith (name n) pfx" for n
    using that assms(4) StartsWith_custom_properties [of "name n"]
      StartsWith_properties [of "name n"]
    by (auto simp: concept_of_def)
  from visited_concept_bound [OF walk assms(2)] concept [OF assms(3,5)] obtain al
    where al: "((a, name node), al) \<in> set (bindings b)"
      and m: "map_of (mentioned_alias b a) (name node) = Some al" by auto
  have one: "filter (\<lambda>kv. fst kv = name node) (mentioned_alias b a) = [(name node, al)]"
    by (rule binding_singleton [OF ok m])
  have frag: "filter (\<lambda>f. fst f = (a, name node)) (FromFragments enum_value T b)
      = [((a, name node),
          GetPropertyJoinTableImpl T kB al (drop (length pfx) (name node)) (a = CUSTOM_PROPERTY))]"
    using fragment_of_concept [OF ok al, of enum_value T] assms(4)
    by (auto simp: GetPropertyJoinTable_def GetCustomPropertyJoinTable_def)
  have other: "map_of (mentioned_alias b a) (name node') = Some al \<longleftrightarrow> name node' = name node"
    if mem: "node' \<in> set (columns e)" and s: "IsStruct node'" "StartsWith (name node') pfx"
    for node'
  proof
    assume "map_of (mentioned_alias b a) (name node') = Some al"
    then have "((a, name node'), al) \<in> set (bindings b)"
      by (simp add: in_bindings map_of_SomeD)
    from binding_alias_inj [OF ok this al] assms(4)
    show "name node' = name node" by (auto simp: kBaseTableRef_def)
  next
    assume "name node' = name node"
    with m show "map_of (mentioned_alias b a) (name node') = Some al" by simp
  qed
  have strip: "substr (name node) (length pfx) = Inr (drop (length pfx) (name node))"
    using StartsWith_length [OF assms(5)] by (simp add: substr_def)
  have fragment_text: "GetPropertyJoinTableImpl T kB al (drop (length pfx) (name node))
                 (a = CUSTOM_PROPERTY)
               = raw_lines
                 ['''',
                  ''JOIN ('',
                  ''  SELECT ''
                    @ (case T of Artifact \<Rightarrow> ''artifact_id'' | Execution \<Rightarrow> ''execution_id''
                       | Context \<Rightarrow> ''context_id'')
                    @ '', int_value, double_value, string_value'',
                  ''  FROM ''
                    @ (case T of Artifact \<Rightarrow> ''ArtifactProperty''
                       | Execution \<Rightarrow> ''ExecutionProperty'' | Context \<Rightarrow> ''ContextProperty'')
                    @ '' WHERE name = '' @ [CHR 0x22] @ drop (length pfx) (name node)
                    @ [CHR 0x22] @ '' AND is_custom_property = ''
                    @ (if a = CUSTOM_PROPERTY then ''true'' else ''false''),
                  '') AS '' @ al @ '' ON '' @ kB @ ''.id = '' @ al @ ''.''
                    @ (case T of Artifact \<Rightarrow> ''artifact_id'' | Execution \<Rightarrow> ''execution_id''
                       | Context \<Rightarrow> ''context_id'') @ '' '']"
    by (simp add: GetPropertyJoinTableImpl_text BoolToString_def)
  note link = registry_ok_GetFromClause [OF ok, of enum_value T]
  from one frag fragment_text strip link other show ?thesis by blast
qed

theorem property_reference_binding_witness:
  "\<exists>w b. Visit id render_call
            (Operator ''AND'' [Column (ResolvedExpressionColumn True ''properties_p''),
                              Column (ResolvedExpressionColumn True ''properties_r''),
                              Column (ResolvedExpressionColumn True ''properties_p'')])
            (FilterQueryBuilder_ctor ''table_0'' 0) = Inr (w, b)
     \<and> StartsWith ''properties_p'' ''properties_''
     \<and> (\<exists>al. filter (\<lambda>kv. fst kv = ''properties_p'') (mentioned_alias b PROPERTY)
                = [(''properties_p'', al)]
           \<and> filter (\<lambda>f. fst f = (PROPERTY, ''properties_p''))
                (FromFragments sample_enum_value Artifact b)
               = [((PROPERTY, ''properties_p''),
                   GetPropertyJoinTableImpl Artifact ''table_0'' al ''p'' False)]
           \<and> GetPropertyJoinTableImpl Artifact ''table_0'' al ''p'' False
               = raw_lines
                 ['''',
                  ''JOIN ('',
                  ''  SELECT artifact_id, int_value, double_value, string_value'',
                  ''  FROM ArtifactProperty WHERE name = '' @ [CHR 0x22] @ ''p''
                    @ [CHR 0x22] @ '' AND is_custom_property = false'',
                  '') AS '' @ al @ '' ON table_0.id = '' @ al @ ''.artifact_id '']
           \<and> substr ''properties_p'' (length ''properties_'') = Inr ''p''
           \<and> GetFromClause sample_enum_value Artifact b
               = Inr (concat (map snd (FromFragments sample_enum_value Artifact b)))
           \<and> map_of (mentioned_alias b PROPERTY) ''properties_r'' \<noteq> Some al)"
proof -
  let ?e = "Operator ''AND'' [Column (ResolvedExpressionColumn True ''properties_p''),
                              Column (ResolvedExpressionColumn True ''properties_r''),
                              Column (ResolvedExpressionColumn True ''properties_p'')]"
  have "\<exists>w b. Visit id render_call ?e (FilterQueryBuilder_ctor ''table_0'' 0) = Inr (w, b)"
    by (simp add: run_simps)
  then obtain w b where
    v: "Visit id render_call ?e (FilterQueryBuilder_ctor ''table_0'' 0) = Inr (w, b)" by blast
  have s: "StartsWith ''properties_p'' ''properties_''" by (simp add: StartsWith_def)
  from property_reference_binding
    [OF v, where node = "ResolvedExpressionColumn True ''properties_p''" and a = PROPERTY
      and pfx = "''properties_''" and enum_value = sample_enum_value and T = Artifact]
  obtain al where
    "filter (\<lambda>kv. fst kv = ''properties_p'') (mentioned_alias b PROPERTY) = [(''properties_p'', al)]"
    "filter (\<lambda>f. fst f = (PROPERTY, ''properties_p'')) (FromFragments sample_enum_value Artifact b)
       = [((PROPERTY, ''properties_p''),
           GetPropertyJoinTableImpl Artifact ''table_0'' al ''p'' False)]"
    "\<forall>node'\<in>set (columns ?e). IsStruct node' \<and> StartsWith (name node') ''properties_'' \<longrightarrow>
       (map_of (mentioned_alias b PROPERTY) (name node') = Some al
          \<longleftrightarrow> name node' = ''properties_p'')"
    "GetPropertyJoinTableImpl Artifact ''table_0'' al ''p'' False
       = raw_lines
                 ['''',
                  ''JOIN ('',
                  ''  SELECT artifact_id, int_value, double_value, string_value'',
                  ''  FROM ArtifactProperty WHERE name = '' @ [CHR 0x22] @ ''p''
                    @ [CHR 0x22] @ '' AND is_custom_property = false'',
                  '') AS '' @ al @ '' ON table_0.id = '' @ al @ ''.artifact_id '']"
    "substr ''properties_p'' (length ''properties_'') = Inr ''p''"
    "GetFromClause sample_enum_value Artifact b
       = Inr (concat (map snd (FromFragments sample_enum_value Artifact b)))"
    by (auto simp: StartsWith_def)
  moreover from this(3) have "map_of (mentioned_alias b PROPERTY) ''properties_r'' \<noteq> Some al"
    by (simp add: StartsWith_def)
  ultimately show ?thesis using v s by blast
qed

text \<open>
  C8 does not hold of the code: the alias of the \<open>type\<close> pseudo-attribute is bound under
  the atom type ATTRIBUTE with the concept key \<open>type\<close>; the empty key of that map is the
  key of the base table.
\<close>

theorem type_reference_key_counterexample:
  "VisitResolvedExpressionColumn id (ResolvedExpressionColumn False ''type'')
     (FilterQueryBuilder_ctor ''table_0'' 0)
   = Inr (''table_1.type'',
          \<lparr> mentioned_alias = (mentioned_alias (FilterQueryBuilder_ctor ''table_0'' 0))
               (ATTRIBUTE := [('''', ''table_0''), (''type'', ''table_1'')]),
            alias_index = 1 \<rparr>)
   \<and> subscript [('''', ''table_0''), (''type'', ''table_1'')] '''' = ''table_0''"
  by (simp add: run_simps)

text \<open>
  C8, amended. In every state \<open>b\<close> that a walk from a fresh builder reaches, a non-struct
  reference named \<open>type\<close> is bound under the atom type ATTRIBUTE with the concept key
  \<open>type\<close> (the empty key of that map stays bound to the base alias) and is rendered as the
  identifier-quoted type alias, a dot and the identifier-quoted word \<open>type\<close>; every other
  non-struct reference leaves the builder as it is and is rendered as the
  identifier-quoted base alias, a dot and the identifier-quoted attribute name.
\<close>

theorem attribute_reference_rendering:
  assumes "Visit q render e (FilterQueryBuilder_ctor kB i0) = Inr (w, b)"
    and "\<not> IsStruct node"
  shows "(name node = ''type'' \<longrightarrow>
            (\<exists>al b'. VisitResolvedExpressionColumn q node b = Inr (q al @ ''.'' @ q ''type'', b')
               \<and> map_of (mentioned_alias b' ATTRIBUTE) ''type'' = Some al
               \<and> map_of (mentioned_alias b' ATTRIBUTE) '''' = Some kB))
       \<and> (name node \<noteq> ''type'' \<longrightarrow>
            VisitResolvedExpressionColumn q node b = Inr (q kB @ ''.'' @ q (name node), b))"
proof -
  from assms(1) have ok: "registry_ok kB i0 b" by (rule registry_ok_Visit)
  show ?thesis
  proof (cases "name node = ''type''")
    case True
    with assms(2) have c: "concept_of node = Some (ATTRIBUTE, ''type'')"
      by (simp add: concept_of_def kTypeTableRef_def)
    obtain t b' where g: "GetTableAlias q ATTRIBUTE ''type'' b = (t, b')"
      by (cases "GetTableAlias q ATTRIBUTE ''type'' b")
    from GetTableAlias_bound [OF g] obtain al
      where m: "map_of (mentioned_alias b' ATTRIBUTE) ''type'' = Some al" and t: "t = q al"
      by blast
    from g c assms(2) True t
    have "VisitResolvedExpressionColumn q node b = Inr (q al @ ''.'' @ q ''type'', b')"
      by (simp add: VisitResolvedExpressionColumn_concept reference_text_def)
    moreover from GetTableAlias_stable [OF g] registry_ok_base(2) [OF ok]
    have "map_of (mentioned_alias b' ATTRIBUTE) '''' = Some kB"
      by (simp add: kBaseTableRef_def)
    ultimately show ?thesis using True m by blast
  next
    case False
    with assms(2) have c: "concept_of node = Some (ATTRIBUTE, kBaseTableRef)"
      by (simp add: concept_of_def)
    from registry_ok_base(3,4) [OF ok]
    have "GetTableAlias q ATTRIBUTE kBaseTableRef b = (q kB, b)"
      by (simp add: GetTableAlias_old)
    with c assms(2) False show ?thesis
      by (simp add: VisitResolvedExpressionColumn_concept reference_text_def)
  qed
qed

theorem attribute_reference_rendering_witness:
  "\<exists>w b. Visit id render_call (Column (ResolvedExpressionColumn True ''contexts_c''))
            (FilterQueryBuilder_ctor ''table_0'' 0) = Inr (w, b)
     \<and> (\<exists>al b'. VisitResolvedExpressionColumn id (ResolvedExpressionColumn False ''type'') b
                   = Inr (al @ ''.type'', b')
            \<and> map_of (mentioned_alias b' ATTRIBUTE) ''type'' = Some al
            \<and> map_of (mentioned_alias b' ATTRIBUTE) '''' = Some ''table_0'')
     \<and> VisitResolvedExpressionColumn id (ResolvedExpressionColumn False ''uri'') b
          = Inr (''table_0.uri'', b)"
proof -
  have "\<exists>w b. Visit id render_call (Column (ResolvedExpressionColumn True ''contexts_c''))
            (FilterQueryBuilder_ctor ''table_0'' 0) = Inr (w, b)"
    by (simp add: run_simps)
  then obtain w b where
    v: "Visit id render_call (Column (ResolvedExpressionColumn True ''contexts_c''))
            (FilterQueryBuilder_ctor ''table_0'' 0) = Inr (w, b)" by blast
  from attribute_reference_rendering [OF v, of "ResolvedExpressionColumn False ''type''"]
    attribute_reference_rendering [OF v, of "ResolvedExpressionColumn False ''uri''"] v
  show ?thesis by auto
qed

section \<open>One join per concept\<close>

text \<open>
  C1 does not hold of the code for the Context kind: an \<open>events_\<close> concept mentioned
  twice leaves no join fragment in the FROM text, which is the base table alone.
\<close>

theorem repeated_event_reference_counterexample:
  "Compile id render_call sample_enum_value ''table_0'' 0 Context
     (Operator ''AND'' [Column (ResolvedExpressionColumn True ''events_x''),
                       Column (ResolvedExpressionColumn True ''events_x'')])
   = Inr (Inr ''Context AS table_0 '', ''AND(table_1;table_1;)'')"
  by (simp add: Compile_def run_simps from_simps)

text \<open>
  C1, amended. After the walk of a tree, a concept that the tree mentions any number of
  times has exactly one binding. \<open>GetFromClause\<close> returns the concatenation of the
  fragments it appends, exactly one of them is the fragment of the concept, it is built
  from the alias of that binding, and the FROM text is the text of the fragments before
  it, that fragment, and the text of the fragments after it, none of which belongs to
  the concept. Every reference to the concept is rendered with that alias: a
  struct-typed reference as the identifier-quoted alias, a non-struct one as that alias,
  a dot and the quoted attribute name. The fragment is a non-empty text, except that for
  the Context kind the fragment of a \<open>contexts_\<close> or \<open>events_\<close> concept is empty.
\<close>

theorem repeated_mentions_share_one_binding:
  assumes "Visit q render e (FilterQueryBuilder_ctor kB i0) = Inr (w, b)"
    and "node \<in> set (columns e)"
    and "concept_of node = Some c"
  shows "\<exists>al. filter (\<lambda>kv. fst kv = snd c) (mentioned_alias b (fst c)) = [(snd c, al)]
           \<and> filter (\<lambda>f. fst f = c) (FromFragments enum_value T b)
               = [(c, JoinFragment enum_value T kB c al)]
           \<and> (JoinFragment enum_value T kB c al = []
                 \<longleftrightarrow> T = Context \<and> (fst c = CONTEXT \<or> fst c = EVENT))
           \<and> GetFromClause enum_value T b
               = Inr (concat (map snd (FromFragments enum_value T b)))
           \<and> (\<exists>before after.
                 FromFragments enum_value T b
                   = before @ [(c, JoinFragment enum_value T kB c al)] @ after
                 \<and> c \<notin> fst ` set before \<and> c \<notin> fst ` set after
                 \<and> GetFromClause enum_value T b
                     = Inr (concat (map snd before) @ JoinFragment enum_value T kB c al
                            @ concat (map snd after)))
           \<and> (\<exists>ts. VisitColumns q (columns e) (FilterQueryBuilder_ctor kB i0) = Inr (ts, b)
                 \<and> length ts = length (columns e)
                 \<and> (\<forall>i<length (columns e). concept_of (columns e ! i) = Some c \<longrightarrow>
                       ts ! i = (if IsStruct (columns e ! i) then q al
                                 else q al @ ''.'' @ q (name (columns e ! i)))))"
proof -
  from assms(1) have ok: "registry_ok kB i0 b" by (rule registry_ok_Visit)
  from assms(1) obtain ts where
    walk: "VisitColumns q (columns e) (FilterQueryBuilder_ctor kB i0) = Inr (ts, b)"
    by (rule Visit_Inr_columns)
  from visited_concept_bound [OF walk assms(2)] assms(3) obtain al
    where al: "(c, al) \<in> set (bindings b)"
      and m: "map_of (mentioned_alias b (fst c)) (snd c) = Some al" by auto
  have one: "filter (\<lambda>kv. fst kv = snd c) (mentioned_alias b (fst c)) = [(snd c, al)]"
    by (rule binding_singleton [OF ok m])
  have frag: "filter (\<lambda>f. fst f = c) (FromFragments enum_value T b)
      = [(c, JoinFragment enum_value T kB c al)]"
    by (rule fragment_of_concept [OF ok al])
  have empty: "JoinFragment enum_value T kB c al = []
      \<longleftrightarrow> T = Context \<and> (fst c = CONTEXT \<or> fst c = EVENT)"
    using JoinFragment_nonempty [of T c enum_value kB al]
      JoinFragment_empty [of c enum_value kB al] by blast
  from VisitColumns_texts [OF walk]
  have len: "length ts = length (columns e)"
    and texts: "\<And>i. i < length (columns e) \<Longrightarrow>
      \<exists>a k v. concept_of (columns e ! i) = Some (a, k)
        \<and> map_of (mentioned_alias b a) k = Some v
        \<and> ts ! i = reference_text q (columns e ! i) (q v)" by blast+
  have same: "ts ! i = (if IsStruct (columns e ! i) then q al
                        else q al @ ''.'' @ q (name (columns e ! i)))"
    if "i < length (columns e)" and "concept_of (columns e ! i) = Some c" for i
    using texts [OF that(1)] that(2) m by (auto simp: reference_text_def)
  note link = registry_ok_GetFromClause [OF ok, of enum_value T]
  from frag have "(c, JoinFragment enum_value T kB c al)
      \<in> set (filter (\<lambda>f. fst f = c) (FromFragments enum_value T b))" by simp
  then have "(c, JoinFragment enum_value T kB c al) \<in> set (FromFragments enum_value T b)"
    by simp
  then obtain before after where
    split: "FromFragments enum_value T b
              = before @ (c, JoinFragment enum_value T kB c al) # after"
    by (auto simp: in_set_conv_decomp)
  from frag have "filter (\<lambda>f. fst f = c) before = [] \<and> filter (\<lambda>f. fst f = c) after = []"
    unfolding split by (simp add: append_eq_Cons_conv)
  then have out: "c \<notin> fst ` set before" "c \<notin> fst ` set after"
    by (auto simp: filter_empty_conv)
  have place: "\<exists>before after.
      FromFragments enum_value T b = before @ [(c, JoinFragment enum_value T kB c al)] @ after
      \<and> c \<notin> fst ` set before \<and> c \<notin> fst ` set after
      \<and> GetFromClause enum_value T b
          = Inr (concat (map snd before) @ JoinFragment enum_value T kB c al
                 @ concat (map snd after))"
    using split out link by (intro exI [of _ before] exI [of _ after]) simp
  from one frag empty link place walk len same show ?thesis by blast
qed

theorem repeated_mentions_share_one_binding_witness:
  "\<exists>w b. Visit id render_call
            (Operator ''AND'' [Column (ResolvedExpressionColumn True ''contexts_c''),
                              Column (ResolvedExpressionColumn False ''uri''),
                              Column (ResolvedExpressionColumn True ''contexts_c'')])
            (FilterQueryBuilder_ctor ''table_0'' 0) = Inr (w, b)
     \<and> concept_of (ResolvedExpressionColumn True ''contexts_c'') = Some (CONTEXT, ''contexts_c'')
     \<and> (\<exists>al. filter (\<lambda>kv. fst kv = ''contexts_c'') (mentioned_alias b CONTEXT)
                = [(''contexts_c'', al)]
           \<and> filter (\<lambda>f. fst f = (CONTEXT, ''contexts_c''))
                (FromFragments sample_enum_value Artifact b)
               = [((CONTEXT, ''contexts_c''), GetContextJoinTable Artifact ''table_0'' al)]
           \<and> GetContextJoinTable Artifact ''table_0'' al \<noteq> []
           \<and> GetFromClause sample_enum_value Artifact b
               = Inr (concat (map snd (FromFragments sample_enum_value Artifact b)))
           \<and> (\<exists>before after.
                 GetFromClause sample_enum_value Artifact b
                   = Inr (concat (map snd before) @ GetContextJoinTable Artifact ''table_0'' al
                          @ concat (map snd after))
                 \<and> (CONTEXT, ''contexts_c'') \<notin> fst ` set before
                 \<and> (CONTEXT, ''contexts_c'') \<notin> fst ` set after)
           \<and> (\<exists>ts. VisitColumns id
                      [ResolvedExpressionColumn True ''contexts_c'',
                       ResolvedExpressionColumn False ''uri'',
                       ResolvedExpressionColumn True ''contexts_c'']
                      (FilterQueryBuilder_ctor ''table_0'' 0) = Inr (ts, b)
                 \<and> ts ! 0 = al \<and> ts ! 2 = al))"
proof -
  let ?e = "Operator ''AND'' [Column (ResolvedExpressionColumn True ''contexts_c''),
                              Column (ResolvedExpressionColumn False ''uri''),
                              Column (ResolvedExpressionColumn True ''contexts_c'')]"
  let ?c = "(CONTEXT, ''contexts_c'')"
  have "\<exists>w b. Visit id render_call ?e (FilterQueryBuilder_ctor ''table_0'' 0) = Inr (w, b)"
    by (simp add: run_simps)
  then obtain w b where
    v: "Visit id render_call ?e (FilterQueryBuilder_ctor ''table_0'' 0) = Inr (w, b)" by blast
  have c: "concept_of (ResolvedExpressionColumn True ''contexts_c'') = Some ?c"
    by (simp add: concept_of_def StartsWith_def)
  have mem: "ResolvedExpressionColumn True ''contexts_c'' \<in> set (columns ?e)" by simp
  from repeated_mentions_share_one_binding [OF v mem c, of sample_enum_value Artifact]
  obtain al before after ts where
    one: "filter (\<lambda>kv. fst kv = snd ?c) (mentioned_alias b (fst ?c)) = [(snd ?c, al)]"
    and frag: "filter (\<lambda>f. fst f = ?c) (FromFragments sample_enum_value Artifact b)
                 = [(?c, JoinFragment sample_enum_value Artifact ''table_0'' ?c al)]"
    and emp: "JoinFragment sample_enum_value Artifact ''table_0'' ?c al = []
                 \<longleftrightarrow> Artifact = Context \<and> (fst ?c = CONTEXT \<or> fst ?c = EVENT)"
    and link: "GetFromClause sample_enum_value Artifact b
                 = Inr (concat (map snd (FromFragments sample_enum_value Artifact b)))"
    and place: "GetFromClause sample_enum_value Artifact b
                 = Inr (concat (map snd before)
                        @ JoinFragment sample_enum_value Artifact ''table_0'' ?c al
                        @ concat (map snd after))"
      "?c \<notin> fst ` set before" "?c \<notin> fst ` set after"
    and walk: "VisitColumns id (columns ?e) (FilterQueryBuilder_ctor ''table_0'' 0) = Inr (ts, b)"
    and same: "\<forall>i<length (columns ?e). concept_of (columns ?e ! i) = Some ?c \<longrightarrow>
                 ts ! i = (if IsStruct (columns ?e ! i) then id al
                           else id al @ ''.'' @ id (name (columns ?e ! i)))"
    by blast
  have j: "JoinFragment sample_enum_value Artifact ''table_0'' ?c al
             = GetContextJoinTable Artifact ''table_0'' al" by simp
  have g1: "filter (\<lambda>kv. fst kv = ''contexts_c'') (mentioned_alias b CONTEXT)
              = [(''contexts_c'', al)]" using one by simp
  have g2: "filter (\<lambda>f. fst f = (CONTEXT, ''contexts_c''))
              (FromFragments sample_enum_value Artifact b)
            = [((CONTEXT, ''contexts_c''), GetContextJoinTable Artifact ''table_0'' al)]"
    using frag unfolding j .
  have g3: "GetContextJoinTable Artifact ''table_0'' al \<noteq> []"
    using emp unfolding j by simp
  have g5: "\<exists>before after.
                 GetFromClause sample_enum_value Artifact b
                   = Inr (concat (map snd before) @ GetContextJoinTable Artifact ''table_0'' al
                          @ concat (map snd after))
                 \<and> (CONTEXT, ''contexts_c'') \<notin> fst ` set before
                 \<and> (CONTEXT, ''contexts_c'') \<notin> fst ` set after"
    using place unfolding j by blast
  from same c have "ts ! 0 = al" "ts ! 2 = al" by (auto simp: nth_Cons')
  with walk have g6: "\<exists>ts. VisitColumns id
                      [ResolvedExpressionColumn True ''contexts_c'',
                       ResolvedExpressionColumn False ''uri'',
                       ResolvedExpressionColumn True ''contexts_c'']
                      (FilterQueryBuilder_ctor ''table_0'' 0) = Inr (ts, b)
                 \<and> ts ! 0 = al \<and> ts ! 2 = al"
    by (intro exI [of _ ts]) simp
  from v c g1 g2 g3 link g5 g6 show ?thesis by blast
qed

text \<open>
  C2 does not hold of the code for the Context kind: a tree that mentions the two
  concepts \<open>contexts_a\<close> and \<open>properties_p\<close> yields a FROM text with two table fragments,
  the base table and the property join, not three.
\<close>

theorem context_kind_fragment_count_counterexample:
  "Visit id render_call
     (Operator ''AND'' [Column (ResolvedExpressionColumn True ''contexts_a''),
                       Column (ResolvedExpressionColumn True ''properties_p'')])
     (FilterQueryBuilder_ctor ''table_0'' 0)
   = Inr (''AND(table_1;table_2;)'',
          \<lparr> mentioned_alias = (mentioned_alias (FilterQueryBuilder_ctor ''table_0'' 0))
               (CONTEXT := [(''contexts_a'', ''table_1'')],
                PROPERTY := [(''properties_p'', ''table_2'')]),
            alias_index = 2 \<rparr>)
   \<and> card (mentioned_concepts
        [ResolvedExpressionColumn True ''contexts_a'',
         ResolvedExpressionColumn True ''properties_p'']) = 2
   \<and> map fst (TableFragments sample_enum_value Context
        \<lparr> mentioned_alias = (mentioned_alias (FilterQueryBuilder_ctor ''table_0'' 0))
               (CONTEXT := [(''contexts_a'', ''table_1'')],
                PROPERTY := [(''properties_p'', ''table_2'')]),
          alias_index = 2 \<rparr>)
      = [(ATTRIBUTE, ''''), (PROPERTY, ''properties_p'')]
   \<and> GetFromClause sample_enum_value Context
        \<lparr> mentioned_alias = (mentioned_alias (FilterQueryBuilder_ctor ''table_0'' 0))
               (CONTEXT := [(''contexts_a'', ''table_1'')],
                PROPERTY := [(''properties_p'', ''table_2'')]),
          alias_index = 2 \<rparr>
      = Inr (''Context AS table_0 ''
             @ GetPropertyJoinTable Context ''table_0'' ''table_2'' ''p'')"
proof (intro conjI)
  show "Visit id render_call
     (Operator ''AND'' [Column (ResolvedExpressionColumn True ''contexts_a''),
                       Column (ResolvedExpressionColumn True ''properties_p'')])
     (FilterQueryBuilder_ctor ''table_0'' 0)
   = Inr (''AND(table_1;table_2;)'',
          \<lparr> mentioned_alias = (mentioned_alias (FilterQueryBuilder_ctor ''table_0'' 0))
               (CONTEXT := [(''contexts_a'', ''table_1'')],
                PROPERTY := [(''properties_p'', ''table_2'')]),
            alias_index = 2 \<rparr>)"
    by (simp add: run_simps)
  show "card (mentioned_concepts
        [ResolvedExpressionColumn True ''contexts_a'',
         ResolvedExpressionColumn True ''properties_p'']) = 2"
    by (simp add: mentioned_concepts_def List.map_filter_simps concept_of_def StartsWith_def
        kBaseTableRef_def)
  show "map fst (TableFragments sample_enum_value Context
        \<lparr> mentioned_alias = (mentioned_alias (FilterQueryBuilder_ctor ''table_0'' 0))
               (CONTEXT := [(''contexts_a'', ''table_1'')],
                PROPERTY := [(''properties_p'', ''table_2'')]),
          alias_index = 2 \<rparr>)
      = [(ATTRIBUTE, ''''), (PROPERTY, ''properties_p'')]"
    by (simp add: TableFragments_def FromFragments_def FilterQueryBuilder_ctor_def
        contains_def subscript_def kBaseTableRef_def kTypeTableRef_def
        GetContextJoinTable_Context GetPropertyJoinTable_def GetPropertyJoinTableImpl_text)
  show "GetFromClause sample_enum_value Context
        \<lparr> mentioned_alias = (mentioned_alias (FilterQueryBuilder_ctor ''table_0'' 0))
               (CONTEXT := [(''contexts_a'', ''table_1'')],
                PROPERTY := [(''properties_p'', ''table_2'')]),
          alias_index = 2 \<rparr>
      = Inr (''Context AS table_0 ''
             @ GetPropertyJoinTable Context ''table_0'' ''table_2'' ''p'')"
    by (simp add: from_simps FilterQueryBuilder_ctor_def)
qed

text \<open>
  C2, amended. After the walk of a tree that mentions K distinct concepts, the registry
  holds K + 1 bindings and \<open>GetFromClause\<close> appends exactly K + 1 fragments, the base table
  and one per concept, each built from the alias of its binding. The aliases are the
  base alias and the prefix \<open>table_\<close> followed by the counter values that come after its
  initial value, up to K of them; they are pairwise distinct when the base alias is none
  of the minted ones. All K + 1 fragments are non-empty texts unless the record kind is
  Context and a \<open>contexts_\<close> or \<open>events_\<close> concept is mentioned, whose fragment is empty.
\<close>

theorem distinct_concepts_fragments_and_aliases:
  assumes "Visit q render e (FilterQueryBuilder_ctor kB i0) = Inr (w, b)"
    and "\<forall>n>i0. kB \<noteq> TableAlias n"
  shows "length (FromFragments enum_value T b) = card (mentioned_concepts (columns e)) + 1
       \<and> FromFragments enum_value T b
           = map (\<lambda>x. (fst x, JoinFragment enum_value T kB (fst x) (snd x))) (bindings b)
       \<and> GetFromClause enum_value T b = Inr (concat (map snd (FromFragments enum_value T b)))
       \<and> distinct (map fst (bindings b))
       \<and> distinct (map snd (bindings b))
       \<and> set (map snd (bindings b))
           = insert kB (TableAlias ` {i0 <.. i0 + card (mentioned_concepts (columns e))})
       \<and> (T \<noteq> Context \<or> (mentioned_alias b CONTEXT = [] \<and> mentioned_alias b EVENT = [])
            \<longrightarrow> TableFragments enum_value T b = FromFragments enum_value T b)"
proof -
  from assms(1) have ok: "registry_ok kB i0 b" by (rule registry_ok_Visit)
  from assms(1) obtain ts where
    walk: "VisitColumns q (columns e) (FilterQueryBuilder_ctor kB i0) = Inr (ts, b)"
    by (rule Visit_Inr_columns)
  note frags = FromFragments_bindings [OF ok, of enum_value T]
  have len: "length (FromFragments enum_value T b) = card (mentioned_concepts (columns e)) + 1"
    using walk_count(1) [OF walk] by (simp add: frags)
  have d: "distinct (map fst (bindings b))" using ok unfolding registry_ok_def by blast
  have "set (map snd (bindings b)) = insert kB (set (map snd (tl (bindings b))))"
    using registry_ok_base(1) [OF ok] by (metis list.simps(15) list.simps(9) snd_conv)
  then have vals: "set (map snd (bindings b))
      = insert kB (TableAlias ` {i0 <.. i0 + card (mentioned_concepts (columns e))})"
    using generated_aliases_set [OF ok] walk_count(2) [OF walk] by simp
  from len frags registry_ok_GetFromClause [OF ok, of enum_value T] d
    all_aliases_distinct [OF ok assms(2)] vals
    all_fragments_shown [OF ok, of T enum_value]
  show ?thesis by blast
qed

theorem distinct_concepts_fragments_and_aliases_witness:
  "\<exists>w b. Visit id render_call
            (Operator ''AND'' [Column (ResolvedExpressionColumn True ''contexts_c''),
                              Column (ResolvedExpressionColumn True ''properties_p''),
                              Column (ResolvedExpressionColumn False ''type''),
                              Column (ResolvedExpressionColumn False ''uri''),
                              Column (ResolvedExpressionColumn True ''contexts_c'')])
            (FilterQueryBuilder_ctor ''table_0'' 0) = Inr (w, b)
     \<and> length (FromFragments sample_enum_value Artifact b) = 4
     \<and> distinct (map snd (bindings b))
     \<and> set (map snd (bindings b)) = insert ''table_0'' (TableAlias ` {0 <.. 3})
     \<and> TableFragments sample_enum_value Artifact b = FromFragments sample_enum_value Artifact b"
proof -
  let ?e = "Operator ''AND'' [Column (ResolvedExpressionColumn True ''contexts_c''),
                              Column (ResolvedExpressionColumn True ''properties_p''),
                              Column (ResolvedExpressionColumn False ''type''),
                              Column (ResolvedExpressionColumn False ''uri''),
                              Column (ResolvedExpressionColumn True ''contexts_c'')]"
  have "\<exists>w b. Visit id render_call ?e (FilterQueryBuilder_ctor ''table_0'' 0) = Inr (w, b)"
    by (simp add: run_simps)
  then obtain w b where
    v: "Visit id render_call ?e (FilterQueryBuilder_ctor ''table_0'' 0) = Inr (w, b)" by blast
  have k: "card (mentioned_concepts (columns ?e)) = 3"
    by (simp add: mentioned_concepts_def List.map_filter_simps concept_of_def StartsWith_def
        kBaseTableRef_def kTypeTableRef_def card_insert_if)
  from distinct_concepts_fragments_and_aliases
    [OF v table_0_fresh, of sample_enum_value Artifact] k v
  show ?thesis by auto
qed

section \<open>Determinism\<close>

text \<open>
  C5. Two builders constructed independently are the same value, so they translate a
  tree to the same WHERE text and the same registry, hence the same FROM text, and the
  FROM text is produced. The numbering is a function of the left-to-right sequence of
  column references alone: the concept that is the j-th to be mentioned first (the base
  table apart) is bound to the prefix followed by the initial counter plus j, the counter
  ends at the initial value plus the number of such concepts, nothing else is bound,
  and any tree with the same sequence of column references, under any rendering of the
  operators, reaches the same registry.
\<close>

theorem alias_numbering_follows_traversal:
  assumes "b1 = FilterQueryBuilder_ctor kB i0"
    and "b2 = FilterQueryBuilder_ctor kB i0"
    and "Visit q render e b1 = Inr (w, b)"
  shows "Visit q render e b2 = Inr (w, b)
       \<and> Compile q render enum_value kB i0 T e = Inr (GetFromClause enum_value T b, w)
       \<and> (\<exists>from_clause. GetFromClause enum_value T b = Inr from_clause)
       \<and> alias_index b
           = i0 + length (first_mentions [(ATTRIBUTE, kBaseTableRef)] (columns e))
       \<and> (\<forall>j<length (first_mentions [(ATTRIBUTE, kBaseTableRef)] (columns e)).
             map_of (mentioned_alias b
                       (fst (first_mentions [(ATTRIBUTE, kBaseTableRef)] (columns e) ! j)))
                    (snd (first_mentions [(ATTRIBUTE, kBaseTableRef)] (columns e) ! j))
               = Some (kTableAliasPrefix @ decimal (i0 + 1 + j)))
       \<and> fst ` set (bindings b)
           = insert (ATTRIBUTE, kBaseTableRef)
               (set (first_mentions [(ATTRIBUTE, kBaseTableRef)] (columns e)))
       \<and> (\<forall>e' render'. columns e' = columns e \<longrightarrow>
             (\<exists>w'. Visit q render' e' b2 = Inr (w', b)))"
proof -
  from assms(1,3) have v: "Visit q render e (FilterQueryBuilder_ctor kB i0) = Inr (w, b)"
    by simp
  then have ok: "registry_ok kB i0 b" by (rule registry_ok_Visit)
  from v obtain ts where
    walk: "VisitColumns q (columns e) (FilterQueryBuilder_ctor kB i0) = Inr (ts, b)"
    by (rule Visit_Inr_columns)
  have seen: "set [(ATTRIBUTE, kBaseTableRef)]
      = fst ` set (bindings (FilterQueryBuilder_ctor kB i0))"
    by (simp add: bindings_ctor)
  from first_mentions_numbering [OF walk seen]
  have num: "alias_index b
           = i0 + length (first_mentions [(ATTRIBUTE, kBaseTableRef)] (columns e))"
    "\<forall>j<length (first_mentions [(ATTRIBUTE, kBaseTableRef)] (columns e)).
             map_of (mentioned_alias b
                       (fst (first_mentions [(ATTRIBUTE, kBaseTableRef)] (columns e) ! j)))
                    (snd (first_mentions [(ATTRIBUTE, kBaseTableRef)] (columns e) ! j))
               = Some (kTableAliasPrefix @ decimal (i0 + 1 + j))"
    "fst ` set (bindings b)
           = insert (ATTRIBUTE, kBaseTableRef)
               (set (first_mentions [(ATTRIBUTE, kBaseTableRef)] (columns e)))"
    by (simp_all add: FilterQueryBuilder_ctor_def TableAlias_def)
  have shape: "\<exists>w'. Visit q render' e' b2 = Inr (w', b)" if "columns e' = columns e"
    for e' render'
  proof -
    from Visit_columns(1) [of q render' e' b2] that walk assms(2)
    have "map_sum id snd (Visit q render' e' b2) = Inr b" by simp
    then show ?thesis by (cases "Visit q render' e' b2") auto
  qed
  from v assms(2) num shape registry_ok_GetFromClause [OF ok, of enum_value T]
  show ?thesis by (simp add: Compile_def)
qed

theorem alias_numbering_follows_traversal_witness:
  "\<exists>w b. Visit id render_call
            (Operator ''AND'' [Column (ResolvedExpressionColumn True ''properties_p''),
                              Column (ResolvedExpressionColumn False ''type''),
                              Column (ResolvedExpressionColumn True ''properties_p''),
                              Column (ResolvedExpressionColumn True ''contexts_c'')])
            (FilterQueryBuilder_ctor ''table_0'' 0) = Inr (w, b)
     \<and> first_mentions [(ATTRIBUTE, kBaseTableRef)]
          [ResolvedExpressionColumn True ''properties_p'',
           ResolvedExpressionColumn False ''type'',
           ResolvedExpressionColumn True ''properties_p'',
           ResolvedExpressionColumn True ''contexts_c'']
        = [(PROPERTY, ''properties_p''), (ATTRIBUTE, ''type''), (CONTEXT, ''contexts_c'')]
     \<and> alias_index b = 3
     \<and> map_of (mentioned_alias b PROPERTY) ''properties_p'' = Some ''table_1''
     \<and> map_of (mentioned_alias b ATTRIBUTE) ''type'' = Some ''table_2''
     \<and> map_of (mentioned_alias b CONTEXT) ''contexts_c'' = Some ''table_3''
     \<and> (\<exists>w'. Visit id render_call
            (Operator ''OR''
               [Operator ''NOT'' [Column (ResolvedExpressionColumn True ''properties_p''),
                                 Column (ResolvedExpressionColumn False ''type'')],
                Operator ''EQ'' [Column (ResolvedExpressionColumn True ''properties_p''),
                                Column (ResolvedExpressionColumn True ''contexts_c'')]])
            (FilterQueryBuilder_ctor ''table_0'' 0) = Inr (w', b))"
proof -
  let ?e = "Operator ''AND'' [Column (ResolvedExpressionColumn True ''properties_p''),
                              Column (ResolvedExpressionColumn False ''type''),
                              Column (ResolvedExpressionColumn True ''properties_p''),
                              Column (ResolvedExpressionColumn True ''contexts_c'')]"
  let ?e' = "Operator ''OR''
               [Operator ''NOT'' [Column (ResolvedExpressionColumn True ''properties_p''),
                                 Column (ResolvedExpressionColumn False ''type'')],
                Operator ''EQ'' [Column (ResolvedExpressionColumn True ''properties_p''),
                                Column (ResolvedExpressionColumn True ''contexts_c'')]]"
  have "\<exists>w b. Visit id render_call ?e (FilterQueryBuilder_ctor ''table_0'' 0) = Inr (w, b)"
    by (simp add: run_simps)
  then obtain w b where
    v: "Visit id render_call ?e (FilterQueryBuilder_ctor ''table_0'' 0) = Inr (w, b)" by blast
  have fm: "first_mentions [(ATTRIBUTE, kBaseTableRef)] (columns ?e)
        = [(PROPERTY, ''properties_p''), (ATTRIBUTE, ''type''), (CONTEXT, ''contexts_c'')]"
    by (simp add: concept_of_def StartsWith_def kBaseTableRef_def kTypeTableRef_def)
  have cols: "columns ?e' = columns ?e" by simp
  from alias_numbering_follows_traversal
    [OF refl refl v, where enum_value = sample_enum_value and T = Artifact]
  have idx: "alias_index b
           = 0 + length (first_mentions [(ATTRIBUTE, kBaseTableRef)] (columns ?e))"
    and num: "\<forall>j<length (first_mentions [(ATTRIBUTE, kBaseTableRef)] (columns ?e)).
             map_of (mentioned_alias b
                       (fst (first_mentions [(ATTRIBUTE, kBaseTableRef)] (columns ?e) ! j)))
                    (snd (first_mentions [(ATTRIBUTE, kBaseTableRef)] (columns ?e) ! j))
               = Some (kTableAliasPrefix @ decimal (0 + 1 + j))"
    and shape: "\<forall>e' render'. columns e' = columns ?e \<longrightarrow>
             (\<exists>w'. Visit id render' e' (FilterQueryBuilder_ctor ''table_0'' 0) = Inr (w', b))"
    by blast+
  from num [unfolded fm] have
    "map_of (mentioned_alias b PROPERTY) ''properties_p'' = Some ''table_1''"
    "map_of (mentioned_alias b ATTRIBUTE) ''type'' = Some ''table_2''"
    "map_of (mentioned_alias b CONTEXT) ''contexts_c'' = Some ''table_3''"
    by (auto simp: kTableAliasPrefix_def decimal_digits nth_Cons' dest: spec [of _ 0]
        spec [of _ 1] spec [of _ 2])
  moreover from idx fm have "alias_index b = 3" by simp
  moreover from shape cols
  have "\<exists>w'. Visit id render_call ?e' (FilterQueryBuilder_ctor ''table_0'' 0) = Inr (w', b)"
    by blast
  ultimately show ?thesis using v fm by simp
qed

end
